theory Spec2Isabelle
  imports Complex_Main "HOL-Library.Sublist" "HOL-Library.List_Lexorder" "HOL-Library.Char_ord"
    "HOL-Library.Finite_Map" "HOL-Library.Multiset"
begin

section \<open>Upstream change check: \<^verbatim>\<open>helpers/check-upstream.py\<close>\<close>

text \<open>
  The script compares the fork's latest release tag with the latest upstream release tag
  and recommends nothing, a review or a rebuild. Exceptions of the Python code are values
  of \<open>error\<close>; a function that can raise returns \<open>error + 'a\<close>. A Python string is
  a list of 8-bit characters, the bytes of its UTF-8 encoding: every character the script
  looks for is ASCII, and a byte of a longer encoding is never an ASCII character.
\<close>

datatype error =
    StopIteration
  | KeyError
  | IndexError
  | AttributeError
  | UnicodeDecodeError
  | JSONDecodeError
  | HclParseError
  | JqError
  | GitCommandError

subsection \<open>Data\<close>

text \<open>A commit is an opaque handle into the repository.\<close>

type_synonym commit = nat

text \<open>
  What \<^verbatim>\<open>hcl2.loads\<close> returns for a Packer template, as far as the script reads it:
  \<^verbatim>\<open>obj['build'][0]['provisioner']\<close> is a list of steps, a step is a dictionary keyed by
  the provisioner kind, and a \<^verbatim>\<open>shell\<close> block may carry \<^verbatim>\<open>script\<close> (a string) and
  \<^verbatim>\<open>scripts\<close> (a list of strings). A missing key is \<open>None\<close>.
\<close>

record shell_block =
  script :: "string option"
  scripts :: "string list option"

record step =
  shell :: "shell_block option"

record build_block =
  provisioner :: "step list option"

record hcl_file =
  build :: "build_block list option"

text \<open>
  The items of a git tree, each with its repository-relative path: files, directories
  with their entries, and submodule links.
\<close>

datatype git_object =
    Blob string
  | Tree string "git_object list"
  | Submodule string

text \<open>
  Python values as \<^verbatim>\<open>json.loads\<close> and the \<^verbatim>\<open>jq\<close> bindings return them. A float is
  given by its rational value: the results of a query are parsed from the output of
  \<^verbatim>\<open>jq\<close>, which prints finite numbers only (the literals \<^verbatim>\<open>NaN\<close> and \<^verbatim>\<open>Infinity\<close>
  that \<^verbatim>\<open>json.loads\<close> also reads are left out). A dictionary is a finite map: its
  equality does not look at insertion order.
\<close>

datatype json =
    JNull
  | JBool bool
  | JInt int
  | JFloat rat
  | JString string
  | JArray "json list"
  | JObject "(string, json) fmap"

text \<open>
  The external collaborators: the repository behind the global \<^verbatim>\<open>repo\<close> (GitPython) and
  the parsers and query evaluator the script imports. \<open>None\<close> is the call raising.
  \<^item> \<open>tag_lines\<close>: the lines of \<^verbatim>\<open>git tag --sort authordate\<close> after the fetch;
  \<^item> \<open>tag_commit\<close>: \<^verbatim>\<open>repo.tag(name).commit\<close>;
  \<^item> \<open>merge_base\<close>: \<^verbatim>\<open>repo.merge_base(a, b)\<close>, a list of commits;
  \<^item> \<open>diff_a_paths\<close>: the \<^verbatim>\<open>a_path\<close> of every entry of \<^verbatim>\<open>first.diff(second)\<close>;
  \<^item> \<open>blob_text\<close>: \<^verbatim>\<open>commit.tree.join(path).data_stream.read().decode('utf-8')\<close>;
  \<^item> \<open>undecodable\<close>: where that read raises, whether it is the decoding that fails (a
    directory, or a file that is not UTF-8) and not the lookup of the path;
  \<^item> \<open>set_order\<close>: the order in which Python iterates over the set of the given
    elements;
  \<^item> \<open>tree_at\<close>: \<^verbatim>\<open>commit.tree / path\<close>;
  \<^item> \<open>hcl2_loads\<close>, \<open>json_loads\<close>: the two parsers;
  \<^item> \<open>jq_all\<close>: \<^verbatim>\<open>jq.compile(query).input_value(doc).all()\<close>.
\<close>

record env =
  remotes :: "string list"
  fetch_error :: "error option"
  tag_lines :: "string list"
  tag_commit :: "string \<Rightarrow> commit"
  merge_base :: "commit \<Rightarrow> commit \<Rightarrow> commit list"
  diff_a_paths :: "commit \<Rightarrow> commit \<Rightarrow> string list"
  blob_text :: "commit \<Rightarrow> string \<Rightarrow> string option"
  undecodable :: "commit \<Rightarrow> string \<Rightarrow> bool"
  set_order :: "string list \<Rightarrow> string list"
  tree_at :: "commit \<Rightarrow> string \<Rightarrow> git_object option"
  hcl2_loads :: "string \<Rightarrow> hcl_file option"
  json_loads :: "string \<Rightarrow> json option"
  jq_all :: "string \<Rightarrow> json \<Rightarrow> json list option"

subsection \<open>Reading a file, fetching\<close>

text \<open>
  \<open>file_at_commit\<close>: a path that is not in the tree raises \<^verbatim>\<open>KeyError\<close>, content that
  is not UTF-8 raises \<^verbatim>\<open>UnicodeDecodeError\<close>.
\<close>

definition file_at_commit :: "env \<Rightarrow> commit \<Rightarrow> string \<Rightarrow> error + string" where
  "file_at_commit e c p =
     (case blob_text e c p of
        None \<Rightarrow> Inl (if undecodable e c p then UnicodeDecodeError else KeyError)
      | Some text \<Rightarrow> Inr text)"

text \<open>
  \<open>fetch_upstream_changes\<close>: the remote is created when it is missing, then fetched;
  a failed fetch raises.
\<close>

definition fetch_upstream_changes :: "env \<Rightarrow> error + env" where
  "fetch_upstream_changes e =
     (let e' = (if ''upstream'' \<notin> set (remotes e)
                then e\<lparr>remotes := remotes e @ [''upstream'']\<rparr> else e) in
      case fetch_error e' of Some err \<Rightarrow> Inl err | None \<Rightarrow> Inr e')"

subsection \<open>The fixed paths of \<open>main\<close>\<close>

definition ubuntu22_hcl :: string where
  "ubuntu22_hcl = ''images/ubuntu/templates/ubuntu-22.04.pkr.hcl''"

definition ubuntu20_hcl :: string where
  "ubuntu20_hcl = ''images/ubuntu/templates/ubuntu-20.04.pkr.hcl''"

definition ubuntu22_toolset :: string where
  "ubuntu22_toolset = ''images/ubuntu/toolsets/toolset-2204.json''"

definition ubuntu20_toolset :: string where
  "ubuntu20_toolset = ''images/ubuntu/toolsets/toolset-2004.json''"

subsection \<open>Tag selection\<close>

text \<open>\<^verbatim>\<open>name.startswith(p)\<close>\<close>

definition startswith :: "string \<Rightarrow> string \<Rightarrow> bool" where
  "startswith name p = prefix p name"

text \<open>
  \<^verbatim>\<open>next(name for name in tagnames if name.startswith(p))\<close>, where \<open>tagnames\<close> is an
  iterator: the call consumes the iterator up to and including the name it returns, and
  the result carries what is left of the iterator. \<open>None\<close> is the exhausted iterator,
  where \<^verbatim>\<open>next\<close> raises \<^verbatim>\<open>StopIteration\<close>.
\<close>

fun next_startswith :: "string \<Rightarrow> string list \<Rightarrow> (string \<times> string list) option" where
  "next_startswith p [] = None"
| "next_startswith p (name # tagnames) =
     (if startswith name p then Some (name, tagnames) else next_startswith p tagnames)"

text \<open>
  \<open>get_latest_releases\<close>: the tag names are the lines of
  \<^verbatim>\<open>git tag --sort authordate\<close> (oldest first). Both \<^verbatim>\<open>next\<close> calls read the same
  reversed iterator. A tag reference is modelled by its name.
\<close>

definition get_latest_releases :: "env \<Rightarrow> error + (string \<times> string)" where
  "get_latest_releases e =
     (let tagnames = rev (tag_lines e) in
      case next_startswith ''ubuntu22/'' tagnames of
        None \<Rightarrow> Inl StopIteration
      | Some (ubuntu_tagname, tagnames') \<Rightarrow>
          (case next_startswith ''bugswarm/'' tagnames' of
             None \<Rightarrow> Inl StopIteration
           | Some (bugswarm_tagname, _) \<Rightarrow> Inr (ubuntu_tagname, bugswarm_tagname)))"

definition get_changed_files :: "env \<Rightarrow> commit \<Rightarrow> commit \<Rightarrow> string list" where
  "get_changed_files e first second = diff_a_paths e first second"

subsection \<open>Scripts of a template\<close>

text \<open>
  \<^verbatim>\<open>s.replace(old, new)\<close>: every occurrence of \<open>old\<close>, found from the left and not
  overlapping, is replaced. With an empty \<open>old\<close>, Python puts \<open>new\<close> before every
  character and at the end.
\<close>

fun py_replace :: "string \<Rightarrow> string \<Rightarrow> string \<Rightarrow> string" where
  "py_replace old new [] = (if old = [] then new else [])"
| "py_replace old new (c # cs) =
     (if old = [] then new @ c # py_replace old new cs
      else if prefix old (c # cs) then new @ py_replace old new (drop (length old) (c # cs))
      else c # py_replace old new cs)"

definition path_root_parent :: string where
  "path_root_parent = ''${path.root}/..''"

definition images_ubuntu :: string where
  "images_ubuntu = ''images/ubuntu''"

text \<open>\<^verbatim>\<open>path.replace('${path.root}/..', 'images/ubuntu')\<close>\<close>

definition rewrite_path :: "string \<Rightarrow> string" where
  "rewrite_path p = py_replace path_root_parent images_ubuntu p"

text \<open>
  The loop over the steps, with the list \<^verbatim>\<open>scripts_used\<close> as accumulator:
  \<^verbatim>\<open>append\<close> for \<^verbatim>\<open>script\<close>, otherwise \<^verbatim>\<open>extend\<close> for \<^verbatim>\<open>scripts\<close>.
\<close>

fun collect_scripts :: "step list \<Rightarrow> string list \<Rightarrow> string list" where
  "collect_scripts [] scripts_used = scripts_used"
| "collect_scripts (st # steps) scripts_used =
     (case shell st of
        None \<Rightarrow> collect_scripts steps scripts_used
      | Some sh \<Rightarrow>
          (case script sh of
             Some s \<Rightarrow> collect_scripts steps (scripts_used @ [s])
           | None \<Rightarrow>
               (case scripts sh of
                  Some ss \<Rightarrow> collect_scripts steps (scripts_used @ ss)
                | None \<Rightarrow> collect_scripts steps scripts_used)))"

text \<open>
  \<^verbatim>\<open>obj['build'][0]['provisioner']\<close> of the parsed file: a missing key raises
  \<^verbatim>\<open>KeyError\<close>, an empty \<^verbatim>\<open>build\<close> list \<^verbatim>\<open>IndexError\<close>.
\<close>

definition template_steps :: "env \<Rightarrow> commit \<Rightarrow> string \<Rightarrow> error + step list" where
  "template_steps e c hcl_path =
     (case file_at_commit e c hcl_path of
        Inl err \<Rightarrow> Inl err
      | Inr file_contents \<Rightarrow>
          (case hcl2_loads e file_contents of
             None \<Rightarrow> Inl HclParseError
           | Some obj \<Rightarrow>
               (case build obj of
                  None \<Rightarrow> Inl KeyError
                | Some [] \<Rightarrow> Inl IndexError
                | Some (b # _) \<Rightarrow>
                    (case provisioner b of
                       None \<Rightarrow> Inl KeyError
                     | Some steps \<Rightarrow> Inr steps))))"

definition get_scripts_in_template :: "env \<Rightarrow> commit \<Rightarrow> string \<Rightarrow> error + string list" where
  "get_scripts_in_template e c hcl_path =
     (case template_steps e c hcl_path of
        Inl err \<Rightarrow> Inl err
      | Inr steps \<Rightarrow> Inr (map rewrite_path (collect_scripts steps [])))"

text \<open>
  What one step contributes, in the words of the specification: nothing without a shell
  block; the \<^verbatim>\<open>script\<close> field when present; else every entry of \<^verbatim>\<open>scripts\<close> when present.
\<close>

definition step_scripts :: "step \<Rightarrow> string list" where
  "step_scripts st =
     (case shell st of
        None \<Rightarrow> []
      | Some sh \<Rightarrow> (case script sh of Some s \<Rightarrow> [s] | None \<Rightarrow> (case scripts sh of Some ss \<Rightarrow> ss | None \<Rightarrow> [])))"

subsection \<open>Helper scripts\<close>

fun item_path :: "git_object \<Rightarrow> string" where
  "item_path (Blob p) = p"
| "item_path (Tree p es) = p"
| "item_path (Submodule p) = p"

fun entries :: "git_object \<Rightarrow> git_object list" where
  "entries (Tree p es) = es"
| "entries _ = []"

fun nodes :: "git_object \<Rightarrow> nat" where
  "nodes (Tree p es) = Suc (sum_list (map nodes es))"
| "nodes _ = 1"

text \<open>
  \<^verbatim>\<open>tree.traverse()\<close> with GitPython's defaults: breadth first, every item whatever its
  kind, no depth limit, the tree itself left out. The queue holds the items still to
  visit; a visited item is yielded and its entries go to the back of the queue.
\<close>

function traverse_queue :: "git_object list \<Rightarrow> git_object list" where
  "traverse_queue [] = []"
| "traverse_queue (item # queue) = item # traverse_queue (queue @ entries item)"
  by pat_completeness auto
termination
proof (relation "measure (\<lambda>q. sum_list (map nodes q))")
  show "wf (measure (\<lambda>q. sum_list (map nodes q)))" by simp
next
  fix item :: git_object and queue :: "git_object list"
  show "(queue @ entries item, item # queue) \<in> measure (\<lambda>q. sum_list (map nodes q))"
    by (cases item) simp_all
qed

definition traverse :: "git_object \<Rightarrow> git_object list" where
  "traverse t = traverse_queue (entries t)"

text \<open>
  \<open>get_helper_scripts\<close>: a missing directory raises \<^verbatim>\<open>KeyError\<close>; a file at that
  path has no \<^verbatim>\<open>traverse\<close>, and the \<^verbatim>\<open>traverse\<close> of a submodule link raises
  \<^verbatim>\<open>AttributeError\<close> as well.
\<close>

definition get_helper_scripts :: "env \<Rightarrow> commit \<Rightarrow> error + string list" where
  "get_helper_scripts e c =
     (case tree_at e c ''images/ubuntu/scripts/helpers'' of
        None \<Rightarrow> Inl KeyError
      | Some (Tree p es) \<Rightarrow> Inr (map item_path (traverse (Tree p es)))
      | Some _ \<Rightarrow> Inl AttributeError)"

text \<open>Everything below an item: its entries, and everything below them.\<close>

fun below :: "git_object \<Rightarrow> git_object list" where
  "below (Tree p es) = es @ concat (map below es)"
| "below _ = []"

subsection \<open>Queries of the scripts\<close>

text \<open>
  The pattern \<^verbatim>\<open>\$\(get_toolset_value (?:'(.*)'|"(.*)"|(.*?))\)\<close>, matched as Python's
  backtracking matcher does. After the literal opening, the three alternatives are tried
  in order; \<^verbatim>\<open>.\<close> matches any character but the newline.
\<close>

definition call_open :: string where
  "call_open = ''$(get_toolset_value ''"

definition newline :: char where
  "newline = CHR 0x0A"

definition squote :: char where
  "squote = CHR 0x27"

definition dquote :: char where
  "dquote = CHR 0x22"

text \<open>
  \<^verbatim>\<open>(.*)\<close> followed by the closing quote and \<^verbatim>\<open>\)\<close>: greedy, so the group first takes
  \<open>n\<close> characters, all there are before the next newline, and gives them back one at a
  time until the rest of the pattern matches.
\<close>

fun greedy_back :: "char \<Rightarrow> string \<Rightarrow> nat \<Rightarrow> string option" where
  "greedy_back q r 0 = (if prefix [q, CHR '')''] r then Some [] else None)"
| "greedy_back q r (Suc n) =
     (if prefix [q, CHR '')''] (drop (Suc n) r) then Some (take (Suc n) r)
      else greedy_back q r n)"

definition quoted :: "char \<Rightarrow> string \<Rightarrow> string option" where
  "quoted q s =
     (case s of
        [] \<Rightarrow> None
      | c # r \<Rightarrow>
          if c = q then greedy_back q r (length (takeWhile (\<lambda>x. x \<noteq> newline) r)) else None)"

text \<open>
  \<^verbatim>\<open>(.*?)\<close> followed by \<^verbatim>\<open>\)\<close>: lazy, so the group takes one more character only when
  the rest of the pattern does not match yet.
\<close>

fun lazy_bare :: "string \<Rightarrow> string option" where
  "lazy_bare [] = None"
| "lazy_bare (c # cs) =
     (if c = CHR '')'' then Some []
      else if c = newline then None
      else map_option ((#) c) (lazy_bare cs))"

text \<open>
  A match at the start of \<open>s\<close>: the three groups of \<^verbatim>\<open>match.groups()\<close> (\<open>None\<close> for a
  group that took no part) and the length of the matched text.
\<close>

definition match_at :: "string \<Rightarrow> (string option list \<times> nat) option" where
  "match_at s =
     (if prefix call_open s then
        (let r = drop (length call_open) s in
         case quoted squote r of
           Some g \<Rightarrow> Some ([Some g, None, None], length call_open + length g + 3)
         | None \<Rightarrow>
             (case quoted dquote r of
                Some g \<Rightarrow> Some ([None, Some g, None], length call_open + length g + 3)
              | None \<Rightarrow>
                  (case lazy_bare r of
                     Some g \<Rightarrow> Some ([None, None, Some g], length call_open + length g + 1)
                   | None \<Rightarrow> None)))
      else None)"

text \<open>
  \<^verbatim>\<open>re.finditer\<close>: the matches from left to right, the search going on where the last
  match ended.
\<close>

function finditer :: "string \<Rightarrow> string option list list" where
  "finditer [] = []"
| "finditer (c # cs) =
     (case match_at (c # cs) of
        Some (groups, n) \<Rightarrow> groups # finditer (drop n (c # cs))
      | None \<Rightarrow> finditer cs)"
  by pat_completeness auto
termination
proof (relation "measure length")
  show "wf (measure length)" by simp
next
  fix c :: char and cs :: string and x2 groups and n :: nat
  assume "match_at (c # cs) = Some x2" "(groups, n) = x2"
  then have "0 < n"
    by (auto simp: match_at_def Let_def split: if_splits option.splits)
  then show "(drop n (c # cs), c # cs) \<in> measure length" by simp
next
  fix c :: char and cs :: string
  show "(cs, c # cs) \<in> measure length" by simp
qed

text \<open>\<^verbatim>\<open>next(group for group in match.groups() if group is not None)\<close>\<close>

fun first_not_none :: "'a option list \<Rightarrow> error + 'a" where
  "first_not_none [] = Inl StopIteration"
| "first_not_none (None # groups) = first_not_none groups"
| "first_not_none (Some g # groups) = Inr g"

text \<open>The loop over the matches of one script, appending to \<^verbatim>\<open>toolset_queries\<close>.\<close>

fun append_queries :: "string option list list \<Rightarrow> string list \<Rightarrow> error + string list" where
  "append_queries [] toolset_queries = Inr toolset_queries"
| "append_queries (m # matches) toolset_queries =
     (case first_not_none m of
        Inl err \<Rightarrow> Inl err
      | Inr query \<Rightarrow> append_queries matches (toolset_queries @ [query]))"

text \<open>The loop over the scripts.\<close>

fun scan_scripts :: "env \<Rightarrow> commit \<Rightarrow> string list \<Rightarrow> string list \<Rightarrow> error + string list" where
  "scan_scripts e c [] toolset_queries = Inr toolset_queries"
| "scan_scripts e c (script_path # script_paths) toolset_queries =
     (case file_at_commit e c script_path of
        Inl err \<Rightarrow> Inl err
      | Inr contents \<Rightarrow>
          (case append_queries (finditer contents) toolset_queries of
             Inl err \<Rightarrow> Inl err
           | Inr toolset_queries' \<Rightarrow> scan_scripts e c script_paths toolset_queries'))"

definition extract_jq_queries :: "env \<Rightarrow> commit \<Rightarrow> string list \<Rightarrow> error + string list" where
  "extract_jq_queries e c script_paths = scan_scripts e c script_paths []"

subsection \<open>Comparing the values of a toolset\<close>

text \<open>
  Python's \<^verbatim>\<open>==\<close> on these values: \<^verbatim>\<open>bool\<close>, \<^verbatim>\<open>int\<close> and \<^verbatim>\<open>float\<close> compare by
  their numeric value (\<^verbatim>\<open>True == 1\<close>, \<^verbatim>\<open>1 == 1.0\<close>), lists element by element in order,
  dictionaries key by key, and values of different kinds are unequal. \<open>canon\<close> maps every
  number to its value, so that two values are equal in Python when their images are the
  same.
\<close>

primrec canon :: "json \<Rightarrow> json" where
  "canon JNull = JNull"
| "canon (JBool b) = JFloat (if b then 1 else 0)"
| "canon (JInt i) = JFloat (of_int i)"
| "canon (JFloat r) = JFloat r"
| "canon (JString s) = JString s"
| "canon (JArray xs) = JArray (map canon xs)"
| "canon (JObject m) = JObject (fmmap canon m)"

definition py_eq :: "json \<Rightarrow> json \<Rightarrow> bool" where
  "py_eq a b = (canon a = canon b)"

text \<open>\<^verbatim>\<open>result_1 != result_2\<close> on two lists of results.\<close>

definition results_differ :: "json list \<Rightarrow> json list \<Rightarrow> bool" where
  "results_differ result_1 result_2 = (\<not> list_all2 py_eq result_1 result_2)"

text \<open>\<^verbatim>\<open>json.loads(file_at_commit(commit, toolset_json_path))\<close>\<close>

definition load_toolset :: "env \<Rightarrow> commit \<Rightarrow> string \<Rightarrow> error + json" where
  "load_toolset e c toolset_json_path =
     (case file_at_commit e c toolset_json_path of
        Inl err \<Rightarrow> Inl err
      | Inr text \<Rightarrow>
          (case json_loads e text of None \<Rightarrow> Inl JSONDecodeError | Some doc \<Rightarrow> Inr doc))"

text \<open>The loop over the queries, with the list \<^verbatim>\<open>differences\<close> as accumulator.\<close>

fun compare_queries ::
  "env \<Rightarrow> json \<Rightarrow> json \<Rightarrow> string list \<Rightarrow> (string \<times> json list \<times> json list) list
     \<Rightarrow> error + (string \<times> json list \<times> json list) list" where
  "compare_queries e toolset_1 toolset_2 [] differences = Inr differences"
| "compare_queries e toolset_1 toolset_2 (query # queries) differences =
     (case jq_all e query toolset_1 of
        None \<Rightarrow> Inl JqError
      | Some result_1 \<Rightarrow>
          (case jq_all e query toolset_2 of
             None \<Rightarrow> Inl JqError
           | Some result_2 \<Rightarrow>
               compare_queries e toolset_1 toolset_2 queries
                 (if results_differ result_1 result_2
                  then differences @ [(query, result_1, result_2)] else differences)))"

definition compare_toolset_values ::
  "env \<Rightarrow> commit \<Rightarrow> commit \<Rightarrow> string \<Rightarrow> string list
     \<Rightarrow> error + (string \<times> json list \<times> json list) list" where
  "compare_toolset_values e commit_1 commit_2 toolset_json_path queries =
     (case load_toolset e commit_1 toolset_json_path of
        Inl err \<Rightarrow> Inl err
      | Inr toolset_1 \<Rightarrow>
          (case load_toolset e commit_2 toolset_json_path of
             Inl err \<Rightarrow> Inl err
           | Inr toolset_2 \<Rightarrow> compare_queries e toolset_1 toolset_2 queries []))"

text \<open>
  The difference one query gives on two documents, in the words of the specification:
  the triple of the query and its two results when they are not equal, nothing otherwise.
\<close>

definition difference_of ::
  "env \<Rightarrow> json \<Rightarrow> json \<Rightarrow> string \<Rightarrow> (string \<times> json list \<times> json list) list" where
  "difference_of e old new query =
     (case jq_all e query old of
        None \<Rightarrow> []
      | Some result_old \<Rightarrow>
          (case jq_all e query new of
             None \<Rightarrow> []
           | Some result_new \<Rightarrow>
               if results_differ result_old result_new
               then [(query, result_old, result_new)] else []))"

subsection \<open>The run\<close>

text \<open>
  What \<open>main\<close> prints, one value for each \<^verbatim>\<open>print\<close> call. The fixed messages are named
  after their text; the formatted ones carry what is formatted into them.
\<close>

datatype message =
    FetchingUpstream
  | ScriptsChanged
  | TemplatesChanged
  | Item string
  | CheckDiffs
  | ValuesChanged string
  | OldValue "json list"
  | NewValue "json list"
  | Blank
  | ResultsHeader
  | NoNoteworthyChanges
  | NoReasonToRebuild
  | SomeChanges
  | CheckBeforeDeciding
  | GitDiffHint string string
  | SignificantChanges
  | ProbablyRebuild

text \<open>
  The state of a run: what was printed so far, the variable \<^verbatim>\<open>recommendation\<close>
  (0 = no action needed, 1 = check diffs, 2 = should rebuild), and every value that was
  assigned to it, oldest first.
\<close>

record run =
  printed :: "message list"
  recommendation :: nat
  assigned :: "nat list"

definition print :: "message list \<Rightarrow> run \<Rightarrow> run" where
  "print lines s = s\<lparr>printed := printed s @ lines\<rparr>"

text \<open>\<^verbatim>\<open>recommendation = max(recommendation, level)\<close>\<close>

definition escalate :: "nat \<Rightarrow> run \<Rightarrow> run" where
  "escalate level s =
     s\<lparr>recommendation := max (recommendation s) level,
       assigned := assigned s @ [max (recommendation s) level]\<rparr>"

text \<open>
  A Python set is a list without duplicates. \<open>intersection a b\<close> is
  \<^verbatim>\<open>set(a) & set(b)\<close>; the script only tests it for emptiness and sorts it. Where the
  script iterates over a set, \<^verbatim>\<open>scripts_used\<close> in \<open>extract_jq_queries\<close>, the order is
  the one \<open>set_order\<close> gives to its elements.
\<close>

definition intersection :: "string list \<Rightarrow> string list \<Rightarrow> string list" where
  "intersection a b = filter (\<lambda>x. x \<in> set b) (remdups a)"

text \<open>The local variables of \<open>main\<close> once the tags, the diff and the scripts are known.\<close>

record locals =
  ubuntu_tag :: string
  bugswarm_tag :: string
  merge_base_commit :: commit
  changed_files :: "string list"
  scripts_used :: "string list"

definition prepare :: "env \<Rightarrow> error + locals" where
  "prepare e =
     (case get_latest_releases e of
        Inl err \<Rightarrow> Inl err
      | Inr (ubuntu, bugswarm) \<Rightarrow>
          (case merge_base e (tag_commit e bugswarm) (tag_commit e ubuntu) of
             [] \<Rightarrow> Inl IndexError
           | base # _ \<Rightarrow>
               (case get_scripts_in_template e (tag_commit e bugswarm) ubuntu22_hcl of
                  Inl err \<Rightarrow> Inl err
                | Inr scripts22 \<Rightarrow>
                    (case get_scripts_in_template e (tag_commit e bugswarm) ubuntu20_hcl of
                       Inl err \<Rightarrow> Inl err
                     | Inr scripts20 \<Rightarrow>
                         (case get_helper_scripts e (tag_commit e bugswarm) of
                            Inl err \<Rightarrow> Inl err
                          | Inr helpers \<Rightarrow>
                              Inr \<lparr>ubuntu_tag = ubuntu,
                                   bugswarm_tag = bugswarm,
                                   merge_base_commit = base,
                                   changed_files =
                                     remdups (get_changed_files e base (tag_commit e ubuntu)),
                                   scripts_used =
                                     set_order e (remdups (scripts22 @ scripts20 @ helpers))\<rparr>)))))"

text \<open>Whether any scripts were changed upstream.\<close>

definition script_check :: "locals \<Rightarrow> run \<Rightarrow> run" where
  "script_check l s =
     (let changed_scripts = intersection (scripts_used l) (changed_files l) in
      if changed_scripts \<noteq> []
      then print ([ScriptsChanged] @ map Item (sort changed_scripts) @ [CheckDiffs])
             (escalate 1 s)
      else s)"

text \<open>Whether the HCL templates were changed upstream.\<close>

definition template_check :: "locals \<Rightarrow> run \<Rightarrow> run" where
  "template_check l s =
     (let changed_hcls = intersection [ubuntu22_hcl, ubuntu20_hcl] (changed_files l) in
      if changed_hcls \<noteq> []
      then print ([TemplatesChanged] @ map Item (sort changed_hcls) @ [CheckDiffs])
             (escalate 1 s)
      else s)"

text \<open>
  The loop over the changed toolsets. An exception of \<open>compare_toolset_values\<close> ends
  the run there: the result is the state reached and the error.
\<close>

fun toolset_loop ::
  "env \<Rightarrow> commit \<Rightarrow> commit \<Rightarrow> string list \<Rightarrow> string list \<Rightarrow> run \<Rightarrow> run \<times> error option" where
  "toolset_loop e base upstream queries [] s = (s, None)"
| "toolset_loop e base upstream queries (toolset_json # rest) s =
     (case compare_toolset_values e base upstream toolset_json queries of
        Inl err \<Rightarrow> (s, Some err)
      | Inr toolset_diffs \<Rightarrow>
          toolset_loop e base upstream queries rest
            (if toolset_diffs \<noteq> []
             then print (ValuesChanged toolset_json
                         # concat (map (\<lambda>(query, original, updated).
                                     [Item query, OldValue original, NewValue updated])
                                   toolset_diffs))
                    (escalate 2 s)
             else s))"

definition print_results :: "locals \<Rightarrow> run \<Rightarrow> run" where
  "print_results l s =
     print ([Blank, ResultsHeader]
            @ (if recommendation s = 0 then [NoNoteworthyChanges, NoReasonToRebuild]
               else if recommendation s = 1
                 then [SomeChanges, CheckBeforeDeciding, GitDiffHint (bugswarm_tag l) (ubuntu_tag l)]
               else if recommendation s = 2 then [SignificantChanges, ProbablyRebuild]
               else [])) s"

text \<open>The three checks and the report, from the state \<open>s\<close>.\<close>

definition checks :: "env \<Rightarrow> locals \<Rightarrow> run \<Rightarrow> run \<times> error option" where
  "checks e l s =
     (let s2 = template_check l (script_check l s) in
      case extract_jq_queries e (tag_commit e (bugswarm_tag l)) (scripts_used l) of
        Inl err \<Rightarrow> (s2, Some err)
      | Inr used_toolset_queries \<Rightarrow>
          (case toolset_loop e (merge_base_commit l) (tag_commit e (ubuntu_tag l))
                  used_toolset_queries
                  (sort (intersection [ubuntu20_toolset, ubuntu22_toolset] (changed_files l)))
                  s2 of
             (s3, Some err) \<Rightarrow> (s3, Some err)
           | (s3, None) \<Rightarrow> (print_results l s3, None)))"

definition start :: run where
  "start = \<lparr>printed = [FetchingUpstream], recommendation = 0, assigned = [0]\<rparr>"

text \<open>
  \<open>main\<close>: the state at the end of the run, and the exception that ended it if one did.
\<close>

definition main :: "env \<Rightarrow> run \<times> error option" where
  "main e =
     (case fetch_upstream_changes e of
        Inl err \<Rightarrow> (start, Some err)
      | Inr e' \<Rightarrow>
          (case prepare e' of
             Inl err \<Rightarrow> (start, Some err)
           | Inr l \<Rightarrow> checks e' l start))"

text \<open>
  The findings of the three checks, in the words of the specification: a dependency is
  among the changed files; a template is among the changed files; some changed toolset
  file has a query whose results differ.
\<close>

definition script_finding :: "locals \<Rightarrow> bool" where
  "script_finding l = (set (scripts_used l) \<inter> set (changed_files l) \<noteq> {})"

definition template_finding :: "locals \<Rightarrow> bool" where
  "template_finding l = ({ubuntu22_hcl, ubuntu20_hcl} \<inter> set (changed_files l) \<noteq> {})"

definition toolset_finding :: "env \<Rightarrow> locals \<Rightarrow> string list \<Rightarrow> bool" where
  "toolset_finding e l queries =
     (\<exists>toolset_json \<in> {ubuntu20_toolset, ubuntu22_toolset} \<inter> set (changed_files l).
        \<exists>found. compare_toolset_values e (merge_base_commit l) (tag_commit e (ubuntu_tag l))
                  toolset_json queries = Inr found \<and> found \<noteq> [])"

text \<open>
  The variable only escalates: its values so far start at 0, never go down, and the last
  of them is the current value.
\<close>

definition escalation_only :: "run \<Rightarrow> bool" where
  "escalation_only s =
     (assigned s \<noteq> [] \<and> hd (assigned s) = 0 \<and> sorted (assigned s)
      \<and> last (assigned s) = recommendation s)"

subsection \<open>An example repository\<close>

text \<open>
  A small repository on which the functions can be evaluated: the fork's tag on commit 1,
  a newer upstream tag on commit 2, their merge base commit 0. Upstream changed a helper
  script, the 22.04 toolset and a file the build does not use. The toolset file holds one
  number, and the only query the scripts make is the identity \<^verbatim>\<open>.\<close>.
\<close>

definition example_steps :: "step list" where
  "example_steps =
     [\<lparr>shell = None\<rparr>,
      \<lparr>shell = Some \<lparr>script = Some ''${path.root}/../scripts/build/install-python.sh'',
                     scripts = None\<rparr>\<rparr>,
      \<lparr>shell = Some \<lparr>script = None,
                     scripts = Some [''${path.root}/../scripts/build/install-git.sh'',
                                     ''${path.root}/../scripts/build/cleanup.sh'']\<rparr>\<rparr>,
      \<lparr>shell = Some \<lparr>script = None, scripts = None\<rparr>\<rparr>]"

definition example_env :: env where
  "example_env = \<lparr>
     remotes = [''origin'', ''upstream''],
     fetch_error = None,
     tag_lines = [''bugswarm/20240101'', ''ubuntu22/20240201.1''],
     tag_commit = (\<lambda>name. if name = ''ubuntu22/20240201.1'' then 2 else 1),
     merge_base = (\<lambda>a b. [0]),
     diff_a_paths = (\<lambda>a b. [''images/ubuntu/toolsets/toolset-2204.json'',
                             ''images/ubuntu/scripts/helpers/install.sh'',
                             ''README.md'']),
     blob_text = (\<lambda>c p.
        if p = ''images/ubuntu/templates/ubuntu-22.04.pkr.hcl'' then Some ''ubuntu-22.04''
        else if p = ''images/ubuntu/templates/ubuntu-20.04.pkr.hcl'' then Some ''ubuntu-20.04''
        else if p = ''images/ubuntu/scripts/build/install-python.sh''
          then Some ''version=$(get_toolset_value .)''
        else if p = ''images/ubuntu/scripts/build/install-git.sh'' then Some ''apt-get install git''
        else if p = ''images/ubuntu/scripts/build/cleanup.sh'' then Some ''apt-get clean''
        else if p = ''images/ubuntu/scripts/helpers/install.sh'' then Some ''echo helper''
        else if p = ''images/ubuntu/toolsets/toolset-2204.json''
          then Some (if c = 0 then ''311'' else ''312'')
        else if p = ''images/ubuntu/toolsets/toolset-2004.json'' then Some ''{''
        else None),
     undecodable = (\<lambda>c p. False),
     set_order = (\<lambda>elements. elements),
     tree_at = (\<lambda>c p.
        if p = ''images/ubuntu/scripts/helpers''
        then Some (Tree ''images/ubuntu/scripts/helpers''
                     [Blob ''images/ubuntu/scripts/helpers/install.sh''])
        else None),
     hcl2_loads = (\<lambda>s.
        if s = ''ubuntu-22.04'' then Some \<lparr>build = Some [\<lparr>provisioner = Some example_steps\<rparr>]\<rparr>
        else if s = ''ubuntu-20.04''
          then Some \<lparr>build = Some [\<lparr>provisioner = Some [\<lparr>shell = None\<rparr>]\<rparr>]\<rparr>
        else None),
     json_loads = (\<lambda>s.
        if s = ''311'' then Some (JInt 311)
        else if s = ''312'' then Some (JInt 312)
        else None),
     jq_all = (\<lambda>q d. if q = ''.'' then Some [d] else None)
   \<rparr>"

text \<open>The helper directory of the example with a subdirectory in it.\<close>

definition example_helpers :: git_object where
  "example_helpers =
     Tree ''images/ubuntu/scripts/helpers''
       [Blob ''images/ubuntu/scripts/helpers/install.sh'',
        Tree ''images/ubuntu/scripts/helpers/lib''
          [Blob ''images/ubuntu/scripts/helpers/lib/os.sh''],
        Blob ''images/ubuntu/scripts/helpers/etc-environment.sh'']"

text \<open>
  The example with both toolset files changed upstream. The 20.04 toolset file does not
  parse; the 22.04 one parses at both commits and its value differs.
\<close>

definition example_env_bad_toolset :: env where
  "example_env_bad_toolset =
     example_env\<lparr>diff_a_paths := (\<lambda>a b. [''images/ubuntu/toolsets/toolset-2204.json'',
                                           ''images/ubuntu/toolsets/toolset-2004.json'',
                                           ''images/ubuntu/scripts/helpers/install.sh''])\<rparr>"

section \<open>Properties\<close>

lemma next_startswith_None:
  "next_startswith p xs = None \<longleftrightarrow> (\<forall>n\<in>set xs. \<not> startswith n p)"
  by (induction xs) auto

lemma next_startswith_Some:
  "next_startswith p xs = Some (n, rest) \<Longrightarrow>
     startswith n p \<and> (\<exists>pre. xs = pre @ n # rest \<and> (\<forall>m\<in>set pre. \<not> startswith m p))"
proof (induction xs)
  case Nil
  then show ?case by simp
next
  case (Cons x xs)
  show ?case
  proof (cases "startswith x p")
    case True
    with Cons.prems show ?thesis by auto
  next
    case False
    with Cons.prems have "next_startswith p xs = Some (n, rest)" by simp
    from Cons.IH [OF this] obtain pre where
      "startswith n p" "xs = pre @ n # rest" "\<forall>m\<in>set pre. \<not> startswith m p" by blast
    with False have "x # xs = (x # pre) @ n # rest \<and> (\<forall>m\<in>set (x # pre). \<not> startswith m p)"
      by simp
    with \<open>startswith n p\<close> show ?thesis by blast
  qed
qed

text \<open>
  C8. If the tag list has no name with the prefix \<^verbatim>\<open>ubuntu22/\<close>, or no name with the
  prefix \<^verbatim>\<open>bugswarm/\<close>, tag selection fails: \<^verbatim>\<open>next\<close> raises \<^verbatim>\<open>StopIteration\<close>,
  which nothing catches, so the run aborts.
\<close>

theorem get_latest_releases_no_match:
  assumes "(\<forall>n\<in>set (tag_lines e). \<not> startswith n ''ubuntu22/'')
           \<or> (\<forall>n\<in>set (tag_lines e). \<not> startswith n ''bugswarm/'')"
  shows "get_latest_releases e = Inl StopIteration"
proof (cases "next_startswith ''ubuntu22/'' (rev (tag_lines e))")
  case None
  then show ?thesis by (simp add: get_latest_releases_def)
next
  case (Some r)
  obtain u rest where r: "r = (u, rest)" by (cases r)
  from Some r next_startswith_Some obtain pre where
    u: "startswith u ''ubuntu22/''" and split: "rev (tag_lines e) = pre @ u # rest" by blast
  from split have "u \<in> set (tag_lines e)" by (metis in_set_conv_decomp set_rev)
  with u assms have nb: "\<forall>n\<in>set (tag_lines e). \<not> startswith n ''bugswarm/''" by blast
  from split have "set rest \<subseteq> set (rev (tag_lines e))" by auto
  then have "set rest \<subseteq> set (tag_lines e)" by simp
  with nb have "next_startswith ''bugswarm/'' rest = None"
    by (auto simp: next_startswith_None)
  with Some r show ?thesis by (simp add: get_latest_releases_def)
qed

theorem get_latest_releases_no_match_witness:
  "tag_lines (example_env\<lparr>tag_lines := [''v1'', ''ubuntu22/20240101.1'']\<rparr>)
     = [''v1'', ''ubuntu22/20240101.1'']
   \<and> \<not> startswith ''v1'' ''bugswarm/'' \<and> \<not> startswith ''ubuntu22/20240101.1'' ''bugswarm/''
   \<and> get_latest_releases (example_env\<lparr>tag_lines := [''v1'', ''ubuntu22/20240101.1'']\<rparr>)
       = Inl StopIteration"
  using get_latest_releases_no_match [of "example_env\<lparr>tag_lines := [''v1'', ''ubuntu22/20240101.1'']\<rparr>"]
  by (simp add: startswith_def)

text \<open>
  C1. The fork's tag is searched in what the first \<^verbatim>\<open>next\<close> left of the iterator, so a
  \<^verbatim>\<open>bugswarm/\<close> tag newer than the latest \<^verbatim>\<open>ubuntu22/\<close> tag is never returned: with
  the tags \<^verbatim>\<open>bugswarm/1\<close>, \<^verbatim>\<open>ubuntu22/1\<close>, \<^verbatim>\<open>bugswarm/2\<close> (oldest first) the function
  returns \<^verbatim>\<open>bugswarm/1\<close>, not the latest \<^verbatim>\<open>bugswarm/2\<close>; and with the fork's only tag
  newer than the upstream tag it raises \<^verbatim>\<open>StopIteration\<close>.
\<close>

theorem get_latest_releases_shared_iterator:
  "get_latest_releases (example_env\<lparr>tag_lines := [''bugswarm/1'', ''ubuntu22/1'', ''bugswarm/2'']\<rparr>)
     = Inr (''ubuntu22/1'', ''bugswarm/1'')
   \<and> get_latest_releases (example_env\<lparr>tag_lines := [''ubuntu22/1'', ''bugswarm/1'']\<rparr>)
     = Inl StopIteration"
  by (simp add: get_latest_releases_def startswith_def)

text \<open>
  What the function returns in general: the latest \<^verbatim>\<open>ubuntu22/\<close> tag, and the latest
  \<^verbatim>\<open>bugswarm/\<close> tag among those older than it.
\<close>

lemma get_latest_releases_result:
  assumes "get_latest_releases e = Inr (u, b)"
  shows "\<exists>older mid newer. tag_lines e = older @ b # mid @ u # newer
           \<and> startswith u ''ubuntu22/'' \<and> startswith b ''bugswarm/''
           \<and> (\<forall>n\<in>set newer. \<not> startswith n ''ubuntu22/'')
           \<and> (\<forall>n\<in>set mid. \<not> startswith n ''bugswarm/'')"
proof -
  from assms obtain r1 where r1: "next_startswith ''ubuntu22/'' (rev (tag_lines e)) = Some (u, r1)"
    and r2: "\<exists>r2. next_startswith ''bugswarm/'' r1 = Some (b, r2)"
    by (auto simp: get_latest_releases_def split: option.splits)
  from r2 obtain r2 where r2: "next_startswith ''bugswarm/'' r1 = Some (b, r2)" by blast
  from next_startswith_Some [OF r1] obtain pre1 where
    u: "startswith u ''ubuntu22/''" and s1: "rev (tag_lines e) = pre1 @ u # r1"
    and n1: "\<forall>m\<in>set pre1. \<not> startswith m ''ubuntu22/''" by blast
  from next_startswith_Some [OF r2] obtain pre2 where
    b: "startswith b ''bugswarm/''" and s2: "r1 = pre2 @ b # r2"
    and n2: "\<forall>m\<in>set pre2. \<not> startswith m ''bugswarm/''" by blast
  from s1 s2 have "rev (rev (tag_lines e)) = rev (pre1 @ u # pre2 @ b # r2)" by simp
  then have "tag_lines e = rev r2 @ b # rev pre2 @ u # rev pre1" by simp
  with u b n1 n2 show ?thesis by (metis set_rev)
qed

subsection \<open>Path rewrite\<close>

lemma py_replace_absent:
  "old \<noteq> [] \<Longrightarrow> \<not> sublist old s \<Longrightarrow> py_replace old new s = s"
proof (induction s)
  case Nil
  then show ?case by simp
next
  case (Cons c cs)
  from Cons.prems have "\<not> prefix old (c # cs)" "\<not> sublist old cs"
    by (auto simp: sublist_Cons_right)
  with Cons show ?case by simp
qed

lemma py_replace_prefix_back:
  assumes "old \<noteq> []" "new \<noteq> []" "hd new \<notin> set p"
  shows "prefix p (py_replace old new s) \<Longrightarrow> prefix p s"
  using assms(3)
proof (induction p arbitrary: s)
  case Nil
  then show ?case by simp
next
  case (Cons x p)
  show ?case
  proof (cases s)
    case Nil
    with Cons.prems assms show ?thesis by simp
  next
    case (Cons c cs)
    show ?thesis
    proof (cases "prefix old (c # cs)")
      case True
      with Cons assms have "prefix (x # p) (new @ py_replace old new (drop (length old) (c # cs)))"
        using Cons.prems by simp
      with assms(2) have "x = hd new" by (cases new) auto
      with Cons.prems(2) show ?thesis by simp
    next
      case False
      with Cons assms Cons.prems have "prefix (x # p) (c # py_replace old new cs)" by simp
      then have "x = c" "prefix p (py_replace old new cs)" by auto
      moreover from Cons.prems(2) have "hd new \<notin> set p" by simp
      ultimately show ?thesis using Cons.IH Cons by auto
    qed
  qed
qed

lemma sublist_append_fresh:
  "old \<noteq> [] \<Longrightarrow> hd old \<notin> set new \<Longrightarrow> sublist old (new @ r) \<Longrightarrow> sublist old r"
proof (induction new)
  case Nil
  then show ?case by simp
next
  case (Cons x new)
  from Cons.prems(1,2) have "\<not> prefix old (x # new @ r)" by (cases old) auto
  with Cons show ?case by (auto simp: sublist_Cons_right)
qed

lemma py_replace_removes:
  assumes "old \<noteq> []" "new \<noteq> []" "hd new \<notin> set (tl old)" "hd old \<notin> set new"
  shows "\<not> sublist old (py_replace old new s)"
proof (induction "length s" arbitrary: s rule: less_induct)
  case less
  show ?case
  proof (cases s)
    case Nil
    with assms(1) show ?thesis by simp
  next
    case (Cons c cs)
    show ?thesis
    proof (cases "prefix old (c # cs)")
      case True
      have "length (drop (length old) (c # cs)) < length s"
        using assms(1) Cons by simp
      then have "\<not> sublist old (py_replace old new (drop (length old) (c # cs)))"
        by (rule less)
      with assms(1,4) have "\<not> sublist old (new @ py_replace old new (drop (length old) (c # cs)))"
        using sublist_append_fresh by blast
      with True Cons assms(1) show ?thesis by simp
    next
      case False
      have "length cs < length s" using Cons by simp
      then have IH: "\<not> sublist old (py_replace old new cs)" by (rule less)
      have "\<not> prefix old (c # py_replace old new cs)"
      proof
        assume p: "prefix old (c # py_replace old new cs)"
        from assms(1) obtain x xs where old: "old = x # xs" by (cases old) auto
        with p have "x = c" "prefix xs (py_replace old new cs)" by auto
        moreover from assms(3) old have "hd new \<notin> set xs" by simp
        ultimately have "prefix xs cs"
          using py_replace_prefix_back [OF assms(1,2)] by blast
        with \<open>x = c\<close> old False show False by simp
      qed
      with IH False Cons assms(1) show ?thesis by (simp add: sublist_Cons_right)
    qed
  qed
qed

lemma rewrite_path_no_token: "\<not> sublist path_root_parent (rewrite_path path)"
  unfolding rewrite_path_def
  by (rule py_replace_removes) (simp_all add: path_root_parent_def images_ubuntu_def)

text \<open>
  C5, as the code has it. The rewrite replaces every occurrence of the placeholder
  \<^verbatim>\<open>${path.root}/..\<close> by \<^verbatim>\<open>images/ubuntu\<close>: a path that starts with the placeholder is
  mapped to a path that starts with \<^verbatim>\<open>images/ubuntu\<close>, a path without the placeholder
  is unchanged, the result holds no placeholder, and the rewrite is idempotent.
\<close>

theorem rewrite_path_props:
  "(startswith path path_root_parent \<longrightarrow> startswith (rewrite_path path) images_ubuntu)
   \<and> (\<not> sublist path_root_parent path \<longrightarrow> rewrite_path path = path)
   \<and> \<not> sublist path_root_parent (rewrite_path path)
   \<and> rewrite_path (rewrite_path path) = rewrite_path path"
proof -
  have ne: "path_root_parent \<noteq> []" by (simp add: path_root_parent_def)
  have a: "startswith (rewrite_path path) images_ubuntu" if "startswith path path_root_parent"
  proof -
    from that ne obtain c cs where "path = c # cs" 
      by (cases path) (auto simp: startswith_def)
    with that ne show ?thesis
      by (simp add: rewrite_path_def startswith_def)
  qed
  have b: "rewrite_path path = path" if "\<not> sublist path_root_parent path"
    using that ne by (simp add: rewrite_path_def py_replace_absent)
  have c: "\<not> sublist path_root_parent (rewrite_path path)" by (rule rewrite_path_no_token)
  have d: "rewrite_path (rewrite_path path) = rewrite_path path"
    using c ne by (simp add: rewrite_path_def py_replace_absent)
  from a b c d show ?thesis by blast
qed

theorem rewrite_path_props_witness:
  "startswith ''${path.root}/../scripts/build/install-git.sh'' path_root_parent
   \<and> rewrite_path ''${path.root}/../scripts/build/install-git.sh'' = ''images/ubuntu/scripts/build/install-git.sh''
   \<and> startswith (rewrite_path ''${path.root}/../scripts/build/install-git.sh'') images_ubuntu
   \<and> \<not> sublist path_root_parent ''images/ubuntu/scripts/helpers/etc-environment.sh''
   \<and> rewrite_path ''images/ubuntu/scripts/helpers/etc-environment.sh'' = ''images/ubuntu/scripts/helpers/etc-environment.sh''"
proof -
  have h1: "startswith ''${path.root}/../scripts/build/install-git.sh'' path_root_parent"
    by (simp add: startswith_def path_root_parent_def)
  have h2: "\<not> sublist path_root_parent ''images/ubuntu/scripts/helpers/etc-environment.sh''"
    unfolding path_root_parent_def by code_simp
  have e: "rewrite_path ''${path.root}/../scripts/build/install-git.sh'' = ''images/ubuntu/scripts/build/install-git.sh''"
    by (simp add: rewrite_path_def path_root_parent_def images_ubuntu_def)
  from h1 h2 e rewrite_path_props [of "''${path.root}/../scripts/build/install-git.sh''"]
    rewrite_path_props [of "''images/ubuntu/scripts/helpers/etc-environment.sh''"]
  show ?thesis by blast
qed

text \<open>
  C5 as stated fails where the placeholder is not at the start of the path: the result
  then starts with what preceded the placeholder.
\<close>

theorem rewrite_path_inner_token:
  "sublist path_root_parent ''./${path.root}/../scripts/build/install-git.sh''
   \<and> rewrite_path ''./${path.root}/../scripts/build/install-git.sh'' = ''./images/ubuntu/scripts/build/install-git.sh''
   \<and> \<not> startswith (rewrite_path ''./${path.root}/../scripts/build/install-git.sh'') images_ubuntu"
proof -
  have a: "sublist path_root_parent ''./${path.root}/../scripts/build/install-git.sh''"
    unfolding path_root_parent_def by code_simp
  have b: "rewrite_path ''./${path.root}/../scripts/build/install-git.sh'' = ''./images/ubuntu/scripts/build/install-git.sh''"
    by (simp add: rewrite_path_def path_root_parent_def images_ubuntu_def)
  from a b show ?thesis by (simp add: startswith_def images_ubuntu_def)
qed

subsection \<open>Scripts of a template\<close>

lemma collect_scripts_acc:
  "collect_scripts steps acc = acc @ concat (map step_scripts steps)"
  by (induction steps arbitrary: acc) (auto simp: step_scripts_def split: option.splits)

text \<open>
  C9. When the template is read and parsed and has its provisioner list, the result is
  the rewritten paths of what the steps contribute, in order: a step with a shell block
  contributes its \<^verbatim>\<open>script\<close> when present, else every entry of its \<^verbatim>\<open>scripts\<close> when
  present, and a step without a shell block contributes nothing.
\<close>

theorem get_scripts_in_template_collects:
  assumes "template_steps e c hcl_path = Inr steps"
  shows "get_scripts_in_template e c hcl_path
           = Inr (map rewrite_path (concat (map step_scripts steps)))
         \<and> (\<forall>st\<in>set steps.
               (shell st = None \<longrightarrow> step_scripts st = [])
             \<and> (\<forall>sh s. shell st = Some sh \<and> script sh = Some s \<longrightarrow> step_scripts st = [s])
             \<and> (\<forall>sh ss. shell st = Some sh \<and> script sh = None \<and> scripts sh = Some ss
                   \<longrightarrow> step_scripts st = ss)
             \<and> (\<forall>sh. shell st = Some sh \<and> script sh = None \<and> scripts sh = None
                   \<longrightarrow> step_scripts st = []))"
  using assms by (simp add: get_scripts_in_template_def collect_scripts_acc step_scripts_def)

theorem get_scripts_in_template_collects_witness:
  "template_steps example_env 1 ubuntu22_hcl = Inr example_steps
   \<and> get_scripts_in_template example_env 1 ubuntu22_hcl
       = Inr [''images/ubuntu/scripts/build/install-python.sh'',
              ''images/ubuntu/scripts/build/install-git.sh'',
              ''images/ubuntu/scripts/build/cleanup.sh'']
   \<and> step_scripts \<lparr>shell = None\<rparr> = []"
proof -
  have t: "template_steps example_env 1 ubuntu22_hcl = Inr example_steps"
    by (simp add: template_steps_def file_at_commit_def example_env_def ubuntu22_hcl_def)
  have m: "map rewrite_path (concat (map step_scripts example_steps))
       = [''images/ubuntu/scripts/build/install-python.sh'',
          ''images/ubuntu/scripts/build/install-git.sh'',
          ''images/ubuntu/scripts/build/cleanup.sh'']"
    by (simp add: example_steps_def step_scripts_def rewrite_path_def path_root_parent_def
        images_ubuntu_def)
  have "\<lparr>shell = None\<rparr> \<in> set example_steps" by (simp add: example_steps_def)
  with get_scripts_in_template_collects [OF t] t m show ?thesis by auto
qed

subsection \<open>Helper scripts\<close>

lemma below_entries: "below x = entries x @ concat (map below (entries x))"
  by (cases x) simp_all

lemma mset_traverse_queue:
  "mset (traverse_queue q) = mset q + mset (concat (map below q))"
proof (induction q rule: traverse_queue.induct)
  case 1
  show ?case by simp
next
  case (2 item queue)
  have "mset (below item) = mset (entries item) + mset (concat (map below (entries item)))"
    by (subst below_entries) simp
  with "2.IH" show ?case by (simp add: ac_simps)
qed

lemma set_traverse: "set (traverse t) = set (below t)"
proof -
  have "mset (traverse t) = mset (below t)"
    unfolding traverse_def by (subst below_entries) (simp add: mset_traverse_queue)
  then show ?thesis by (rule mset_eq_setD)
qed

lemma below_trans: "x \<in> set (below y) \<Longrightarrow> y \<in> set (below z) \<Longrightarrow> x \<in> set (below z)"
proof (induction z rule: below.induct)
  case (1 p es)
  from "1.prems"(2) consider "y \<in> set es" | e where "e \<in> set es" "y \<in> set (below e)" by auto
  then show ?case
  proof cases
    case 1
    with "1.prems"(1) show ?thesis by auto
  next
    case 2
    with "1.IH" "1.prems"(1) have "x \<in> set (below e)" by blast
    with 2 show ?thesis by auto
  qed
qed simp_all

text \<open>
  C10. For a helper directory that is a tree, the result holds exactly the paths of the
  items below it, each item once: a subdirectory's own path is in the result, and so is
  the path of every entry of that subdirectory.
\<close>

theorem get_helper_scripts_all_items:
  assumes "tree_at e c ''images/ubuntu/scripts/helpers'' = Some (Tree p es)"
  shows "\<exists>r. get_helper_scripts e c = Inr r
           \<and> mset r = image_mset item_path (mset (below (Tree p es)))
           \<and> (\<forall>d ds. Tree d ds \<in> set (below (Tree p es))
                 \<longrightarrow> d \<in> set r \<and> (\<forall>f\<in>set ds. item_path f \<in> set r))"
proof -
  let ?t = "Tree p es"
  let ?r = "map item_path (traverse ?t)"
  have r: "get_helper_scripts e c = Inr ?r"
    using assms by (simp add: get_helper_scripts_def)
  have "mset (traverse ?t) = mset (below ?t)"
    unfolding traverse_def by (subst below_entries) (simp add: mset_traverse_queue)
  then have m: "mset ?r = image_mset item_path (mset (below ?t))" by simp
  have s: "set ?r = item_path ` set (below ?t)" by (simp add: set_traverse)
  have "d \<in> set ?r \<and> (\<forall>f\<in>set ds. item_path f \<in> set ?r)"
    if d: "Tree d ds \<in> set (below ?t)" for d ds
  proof
    from d have "item_path (Tree d ds) \<in> item_path ` set (below ?t)" by (rule imageI)
    with s show "d \<in> set ?r" by simp
    show "\<forall>f\<in>set ds. item_path f \<in> set ?r"
    proof
      fix f assume "f \<in> set ds"
      then have "f \<in> set (below (Tree d ds))" by simp
      then have "f \<in> set (below ?t)" using d by (rule below_trans)
      with s show "item_path f \<in> set ?r" by blast
    qed
  qed
  with r m show ?thesis by blast
qed

theorem get_helper_scripts_all_items_witness:
  "tree_at (example_env\<lparr>tree_at := (\<lambda>c p. Some example_helpers)\<rparr>) 1 ''images/ubuntu/scripts/helpers''
     = Some example_helpers
   \<and> get_helper_scripts (example_env\<lparr>tree_at := (\<lambda>c p. Some example_helpers)\<rparr>) 1
       = Inr [''images/ubuntu/scripts/helpers/install.sh'',
              ''images/ubuntu/scripts/helpers/lib'',
              ''images/ubuntu/scripts/helpers/etc-environment.sh'',
              ''images/ubuntu/scripts/helpers/lib/os.sh'']
   \<and> ''images/ubuntu/scripts/helpers/lib''
       \<in> set [''images/ubuntu/scripts/helpers/install.sh'',
              ''images/ubuntu/scripts/helpers/lib'',
              ''images/ubuntu/scripts/helpers/etc-environment.sh'',
              ''images/ubuntu/scripts/helpers/lib/os.sh'']"
proof -
  let ?e = "example_env\<lparr>tree_at := (\<lambda>c p. Some example_helpers)\<rparr>"
  have t: "tree_at ?e 1 ''images/ubuntu/scripts/helpers''
     = Some (Tree ''images/ubuntu/scripts/helpers''
       [Blob ''images/ubuntu/scripts/helpers/install.sh'',
        Tree ''images/ubuntu/scripts/helpers/lib''
          [Blob ''images/ubuntu/scripts/helpers/lib/os.sh''],
        Blob ''images/ubuntu/scripts/helpers/etc-environment.sh''])"
    by (simp add: example_helpers_def)
  have g: "get_helper_scripts ?e 1
       = Inr [''images/ubuntu/scripts/helpers/install.sh'',
              ''images/ubuntu/scripts/helpers/lib'',
              ''images/ubuntu/scripts/helpers/etc-environment.sh'',
              ''images/ubuntu/scripts/helpers/lib/os.sh'']"
    by (simp add: get_helper_scripts_def example_helpers_def traverse_def)
  from get_helper_scripts_all_items [OF t] obtain r where
    "get_helper_scripts ?e 1 = Inr r"
    "\<forall>d ds. Tree d ds \<in> set (below (Tree ''images/ubuntu/scripts/helpers''
       [Blob ''images/ubuntu/scripts/helpers/install.sh'',
        Tree ''images/ubuntu/scripts/helpers/lib''
          [Blob ''images/ubuntu/scripts/helpers/lib/os.sh''],
        Blob ''images/ubuntu/scripts/helpers/etc-environment.sh'']))
       \<longrightarrow> d \<in> set r \<and> (\<forall>f\<in>set ds. item_path f \<in> set r)"
    by blast
  then have "''images/ubuntu/scripts/helpers/lib'' \<in> set r" by simp
  with \<open>get_helper_scripts ?e 1 = Inr r\<close> g t show ?thesis
    by (simp add: example_helpers_def)
qed

subsection \<open>Queries of the scripts\<close>

lemma match_at_groups:
  assumes "match_at s = Some (groups, n)"
  shows "\<exists>g. groups = [Some g, None, None] \<or> groups = [None, Some g, None]
           \<or> groups = [None, None, Some g]"
  using assms by (auto simp: match_at_def Let_def split: if_splits option.splits)

lemma finditer_groups:
  "m \<in> set (finditer s) \<Longrightarrow>
     \<exists>g. m = [Some g, None, None] \<or> m = [None, Some g, None] \<or> m = [None, None, Some g]"
proof (induction s rule: finditer.induct)
  case 1
  then show ?case by simp
next
  case (2 c cs)
  show ?case
  proof (cases "match_at (c # cs)")
    case None
    with 2 show ?thesis by simp
  next
    case (Some r)
    obtain groups n where r: "r = (groups, n)" by (cases r)
    with Some "2.prems" have "m = groups \<or> m \<in> set (finditer (drop n (c # cs)))" by simp
    then show ?thesis
    proof
      assume "m = groups"
      with Some r match_at_groups show ?thesis by blast
    next
      assume in_rest: "m \<in> set (finditer (drop n (c # cs)))"
      have "match_at (c # cs) = Some (groups, n)" using Some r by simp
      from "2.IH"(2) [OF this refl in_rest] show ?thesis .
    qed
  qed
qed

lemma append_queries_one_each:
  assumes "\<forall>m\<in>set ms. \<exists>g. m = [Some g, None, None] \<or> m = [None, Some g, None]
             \<or> m = [None, None, Some g]"
  shows "\<exists>qs. append_queries ms acc = Inr (acc @ qs)
           \<and> list_all2 (\<lambda>m q. first_not_none m = Inr q
                 \<and> (m = [Some q, None, None] \<or> m = [None, Some q, None]
                      \<or> m = [None, None, Some q])) ms qs"
  using assms
proof (induction ms arbitrary: acc)
  case Nil
  then show ?case by simp
next
  case (Cons m ms)
  from Cons.prems obtain g where
    g: "m = [Some g, None, None] \<or> m = [None, Some g, None] \<or> m = [None, None, Some g]"
    by auto
  then have f: "first_not_none m = Inr g" by auto
  from Cons.prems have "\<forall>m\<in>set ms. \<exists>g. m = [Some g, None, None] \<or> m = [None, Some g, None]
             \<or> m = [None, None, Some g]" by simp
  from Cons.IH [OF this, of "acc @ [g]"] obtain qs where
    qs: "append_queries ms (acc @ [g]) = Inr ((acc @ [g]) @ qs)"
    and rel: "list_all2 (\<lambda>m q. first_not_none m = Inr q
                 \<and> (m = [Some q, None, None] \<or> m = [None, Some q, None]
                      \<or> m = [None, None, Some q])) ms qs"
    by blast
  from f qs have "append_queries (m # ms) acc = Inr (acc @ g # qs)" by simp
  moreover from g f rel have "list_all2 (\<lambda>m q. first_not_none m = Inr q
                 \<and> (m = [Some q, None, None] \<or> m = [None, Some q, None]
                      \<or> m = [None, None, Some q])) (m # ms) (g # qs)" by simp
  ultimately show ?case by blast
qed

text \<open>
  C4, as the code has it. For a script that can be read, extraction does not fail, and
  the queries correspond one to one, in order, to the matches of the pattern in the text:
  in every match exactly one of the three groups took part, and the query is that group,
  the first one that is not \<^verbatim>\<open>None\<close>. The group may be the empty string.
\<close>

theorem extract_jq_queries_one_per_match:
  assumes "blob_text e c script_path = Some contents"
  shows "\<exists>qs. extract_jq_queries e c [script_path] = Inr qs
           \<and> list_all2 (\<lambda>m q. first_not_none m = Inr q
                 \<and> (m = [Some q, None, None] \<or> m = [None, Some q, None]
                      \<or> m = [None, None, Some q])) (finditer contents) qs"
proof -
  from append_queries_one_each [of "finditer contents" "[]"] finditer_groups
  obtain qs where "append_queries (finditer contents) [] = Inr ([] @ qs)"
    and "list_all2 (\<lambda>m q. first_not_none m = Inr q
                 \<and> (m = [Some q, None, None] \<or> m = [None, Some q, None]
                      \<or> m = [None, None, Some q])) (finditer contents) qs"
    by blast
  with assms show ?thesis
    by (simp add: extract_jq_queries_def file_at_commit_def)
qed

theorem extract_jq_queries_one_per_match_witness:
  "blob_text (example_env\<lparr>blob_text := (\<lambda>c p. Some ''a=$(get_toolset_value .x) b=$(get_toolset_value \"y z\")'')\<rparr>)
       1 ''install.sh''
     = Some ''a=$(get_toolset_value .x) b=$(get_toolset_value \"y z\")''
   \<and> finditer ''a=$(get_toolset_value .x) b=$(get_toolset_value \"y z\")''
     = [[None, None, Some ''.x''], [None, Some ''y z'', None]]
   \<and> extract_jq_queries
       (example_env\<lparr>blob_text := (\<lambda>c p. Some ''a=$(get_toolset_value .x) b=$(get_toolset_value \"y z\")'')\<rparr>)
       1 [''install.sh'']
     = Inr [''.x'', ''y z'']"
proof -
  let ?e = "example_env\<lparr>blob_text := (\<lambda>c p. Some ''a=$(get_toolset_value .x) b=$(get_toolset_value \"y z\")'')\<rparr>"
  have f: "finditer ''a=$(get_toolset_value .x) b=$(get_toolset_value \"y z\")''
     = [[None, None, Some ''.x''], [None, Some ''y z'', None]]"
    by (simp add: call_open_def squote_def dquote_def newline_def match_at_def quoted_def)
  have b: "blob_text ?e 1 ''install.sh''
     = Some ''a=$(get_toolset_value .x) b=$(get_toolset_value \"y z\")''" by simp
  from extract_jq_queries_one_per_match [OF b] obtain qs where
    qs: "extract_jq_queries ?e 1 [''install.sh''] = Inr qs"
    and rel: "list_all2 (\<lambda>m q. first_not_none m = Inr q
                 \<and> (m = [Some q, None, None] \<or> m = [None, Some q, None]
                      \<or> m = [None, None, Some q]))
               (finditer ''a=$(get_toolset_value .x) b=$(get_toolset_value \"y z\")'') qs"
    by blast
  from rel have "qs = [''.x'', ''y z'']"
    unfolding f by (auto simp: list_all2_Cons1)
  with qs f b show ?thesis by simp
qed

text \<open>
  C4 as stated fails where the group that took part is empty: for the call with an
  empty quoted argument the only match has its first group empty and no other group,
  and the empty string is the query.
\<close>

theorem extract_jq_queries_empty_group:
  "finditer (''$(get_toolset_value '' @ [squote, squote] @ '')'') = [[Some [], None, None]]
   \<and> extract_jq_queries
       (example_env\<lparr>blob_text := (\<lambda>c p. Some (''$(get_toolset_value '' @ [squote, squote] @ '')''))\<rparr>)
       1 [''install.sh'']
     = Inr [[]]"
  by (simp add: extract_jq_queries_def file_at_commit_def
      call_open_def squote_def dquote_def newline_def match_at_def quoted_def)

text \<open>The three forms, each alone in a script, and on the lines of one script.\<close>

lemma three_forms_alone:
  "extract_jq_queries
       (example_env\<lparr>blob_text := (\<lambda>c p. Some ''$(get_toolset_value 'a.b')'')\<rparr>)
       1 [''install.sh''] = Inr [''a.b'']
   \<and> extract_jq_queries
       (example_env\<lparr>blob_text := (\<lambda>c p. Some ''$(get_toolset_value \"a.b\")'')\<rparr>)
       1 [''install.sh''] = Inr [''a.b'']
   \<and> extract_jq_queries
       (example_env\<lparr>blob_text := (\<lambda>c p. Some ''$(get_toolset_value a.b)'')\<rparr>)
       1 [''install.sh''] = Inr [''a.b'']
   \<and> extract_jq_queries
       (example_env\<lparr>blob_text := (\<lambda>c p. Some
          (''x=$(get_toolset_value 'a.b')'' @ [newline]
           @ ''y=$(get_toolset_value \"a.b\") # second'' @ [newline]
           @ ''for z in $(get_toolset_value a.b); do'' @ [newline]))\<rparr>)
       1 [''install.sh''] = Inr [''a.b'', ''a.b'', ''a.b'']"
  by (simp add: extract_jq_queries_def file_at_commit_def
      call_open_def squote_def dquote_def newline_def match_at_def quoted_def)






























subsection \<open>Comparing the values of a toolset\<close>

text \<open>Python's equality, case by case.\<close>

lemma py_eq_numbers:
  "py_eq (JBool b) (JInt i) \<longleftrightarrow> i = (if b then 1 else 0)"
  "py_eq (JInt i) (JInt j) \<longleftrightarrow> i = j"
  "py_eq (JInt i) (JFloat r) \<longleftrightarrow> of_int i = r"
  "py_eq (JFloat r) (JFloat q) \<longleftrightarrow> r = q"
  "py_eq (JBool b) (JBool b') \<longleftrightarrow> b = b'"
  by (auto simp: py_eq_def)

lemma py_eq_kinds:
  "py_eq (JString s) (JString t) \<longleftrightarrow> s = t"
  "\<not> py_eq JNull (JBool b)"
  "\<not> py_eq (JString s) (JInt i)"
  "\<not> py_eq (JArray xs) (JObject m)"
  "py_eq JNull JNull"
  by (auto simp: py_eq_def)

lemma list_all2_py_eq: "list_all2 py_eq xs ys \<longleftrightarrow> map canon xs = map canon ys"
proof (induction xs arbitrary: ys)
  case Nil
  then show ?case by auto
next
  case (Cons x xs)
  then show ?case by (cases ys) (auto simp: py_eq_def)
qed

lemma py_eq_arrays: "py_eq (JArray xs) (JArray ys) \<longleftrightarrow> list_all2 py_eq xs ys"
  by (simp add: py_eq_def list_all2_py_eq)

lemma py_eq_objects: "py_eq (JObject m) (JObject n) \<longleftrightarrow> fmrel py_eq m n"
proof -
  have "fmrel py_eq m n \<longleftrightarrow> fmmap canon m = fmmap canon n"
    unfolding fmrel_iff
  proof
    assume r: "\<forall>x. rel_option py_eq (fmlookup m x) (fmlookup n x)"
    show "fmmap canon m = fmmap canon n"
    proof (rule fmap_ext)
      fix x
      from r have "rel_option py_eq (fmlookup m x) (fmlookup n x)" by blast
      then show "fmlookup (fmmap canon m) x = fmlookup (fmmap canon n) x"
        by (cases "fmlookup m x"; cases "fmlookup n x") (auto simp: py_eq_def)
    qed
  next
    assume eq: "fmmap canon m = fmmap canon n"
    show "\<forall>x. rel_option py_eq (fmlookup m x) (fmlookup n x)"
    proof
      fix x
      from eq have "fmlookup (fmmap canon m) x = fmlookup (fmmap canon n) x" by simp
      then show "rel_option py_eq (fmlookup m x) (fmlookup n x)"
        by (cases "fmlookup m x"; cases "fmlookup n x") (auto simp: py_eq_def)
    qed
  qed
  then show ?thesis by (simp add: py_eq_def)
qed

lemma results_differ_sym: "results_differ a b = results_differ b a"
  by (auto simp: results_differ_def list_all2_py_eq)

lemma difference_of_swap:
  "difference_of e new old q = map (\<lambda>(q, a, b). (q, b, a)) (difference_of e old new q)"
  by (auto simp: difference_of_def results_differ_sym [of _ "_ :: json list"] split: option.splits)

lemma compare_queries_acc:
  assumes "compare_queries e t1 t2 queries acc = Inr found"
  shows "found = acc @ concat (map (difference_of e t1 t2) queries)
         \<and> (\<forall>q\<in>set queries. jq_all e q t1 \<noteq> None \<and> jq_all e q t2 \<noteq> None)"
  using assms
proof (induction queries arbitrary: acc)
  case Nil
  then show ?case by simp
next
  case (Cons q queries)
  from Cons.prems obtain r1 r2 where r: "jq_all e q t1 = Some r1" "jq_all e q t2 = Some r2"
    by (auto split: option.splits)
  let ?acc = "if results_differ r1 r2 then acc @ [(q, r1, r2)] else acc"
  from Cons.prems r have "compare_queries e t1 t2 queries ?acc = Inr found" by simp
  from Cons.IH [OF this] r show ?case by (auto simp: difference_of_def)
qed

lemma compare_queries_total:
  assumes "\<forall>q\<in>set queries. jq_all e q t1 \<noteq> None \<and> jq_all e q t2 \<noteq> None"
  shows "compare_queries e t1 t2 queries acc
           = Inr (acc @ concat (map (difference_of e t1 t2) queries))"
  using assms
proof (induction queries arbitrary: acc)
  case Nil
  then show ?case by simp
next
  case (Cons q queries)
  from Cons.prems obtain r1 r2 where r: "jq_all e q t1 = Some r1" "jq_all e q t2 = Some r2"
    by auto
  from Cons.prems have "\<forall>q\<in>set queries. jq_all e q t1 \<noteq> None \<and> jq_all e q t2 \<noteq> None"
    by simp
  from Cons.IH [OF this] r show ?case by (simp add: difference_of_def)
qed

lemma in_difference_of:
  "(q, r1, r2) \<in> set (difference_of e old new q') \<longleftrightarrow>
     q = q' \<and> jq_all e q old = Some r1 \<and> jq_all e q new = Some r2 \<and> \<not> list_all2 py_eq r1 r2"
  by (auto simp: difference_of_def results_differ_def split: option.splits)

text \<open>
  C7. When the comparison returns, both documents were read and parsed, and a triple
  (query, result on the old document, result on the new document) is among the
  differences exactly when the query is one of the queries and its two result lists are
  not equal, element by element in order, under Python's equality. With the two commits
  exchanged the comparison returns the same differences, for the same queries in the
  same order, with the two results of each exchanged.
\<close>

theorem compare_toolset_values_differences:
  assumes "compare_toolset_values e c1 c2 p queries = Inr found"
  shows "\<exists>old new. load_toolset e c1 p = Inr old \<and> load_toolset e c2 p = Inr new
           \<and> (\<forall>q r1 r2. (q, r1, r2) \<in> set found \<longleftrightarrow>
                 q \<in> set queries \<and> jq_all e q old = Some r1 \<and> jq_all e q new = Some r2
                 \<and> \<not> list_all2 py_eq r1 r2)
           \<and> compare_toolset_values e c2 c1 p queries
               = Inr (map (\<lambda>(q, r1, r2). (q, r2, r1)) found)
           \<and> map fst (map (\<lambda>(q, r1, r2). (q, r2, r1)) found) = map fst found"
proof -
  from assms obtain old new where
    old: "load_toolset e c1 p = Inr old" and new: "load_toolset e c2 p = Inr new"
    and cq: "compare_queries e old new queries [] = Inr found"
    by (auto simp: compare_toolset_values_def split: sum.splits)
  from compare_queries_acc [OF cq] have
    found: "found = concat (map (difference_of e old new) queries)"
    and ok: "\<forall>q\<in>set queries. jq_all e q old \<noteq> None \<and> jq_all e q new \<noteq> None"
    by simp_all
  have mem: "\<forall>q r1 r2. (q, r1, r2) \<in> set found \<longleftrightarrow>
                 q \<in> set queries \<and> jq_all e q old = Some r1 \<and> jq_all e q new = Some r2
                 \<and> \<not> list_all2 py_eq r1 r2"
    unfolding found by (auto simp: in_difference_of)
  from ok have "\<forall>q\<in>set queries. jq_all e q new \<noteq> None \<and> jq_all e q old \<noteq> None" by blast
  then have "compare_queries e new old queries []
               = Inr ([] @ concat (map (difference_of e new old) queries))"
    by (rule compare_queries_total)
  also have "concat (map (difference_of e new old) queries)
               = map (\<lambda>(q, r1, r2). (q, r2, r1)) found"
    unfolding found by (induction queries) (simp_all add: difference_of_swap [of e new old])
  finally have swapped: "compare_toolset_values e c2 c1 p queries
               = Inr (map (\<lambda>(q, r1, r2). (q, r2, r1)) found)"
    using old new by (simp add: compare_toolset_values_def)
  have "map fst (map (\<lambda>(q, r1, r2). (q, r2, r1)) found) = map fst found"
    by (induction found) auto
  with old new mem swapped show ?thesis by blast
qed

theorem compare_toolset_values_differences_witness:
  "compare_toolset_values example_env 0 2 ubuntu22_toolset [''.'']
     = Inr [(''.'', [JInt 311], [JInt 312])]
   \<and> compare_toolset_values example_env 2 0 ubuntu22_toolset [''.'']
     = Inr [(''.'', [JInt 312], [JInt 311])]
   \<and> jq_all example_env ''.'' (JInt 311) = Some [JInt 311]
   \<and> jq_all example_env ''.'' (JInt 312) = Some [JInt 312]
   \<and> \<not> list_all2 py_eq [JInt 311] [JInt 312]"
proof -
  have h: "compare_toolset_values example_env 0 2 ubuntu22_toolset [''.'']
     = Inr [(''.'', [JInt 311], [JInt 312])]"
    by (simp add: compare_toolset_values_def load_toolset_def file_at_commit_def
        example_env_def ubuntu22_toolset_def results_differ_def py_eq_def)
  have j: "jq_all example_env ''.'' (JInt 311) = Some [JInt 311]"
    "jq_all example_env ''.'' (JInt 312) = Some [JInt 312]"
    "\<not> list_all2 py_eq [JInt 311] [JInt 312]"
    by (simp_all add: example_env_def py_eq_def)
  from compare_toolset_values_differences [OF h]
  have "compare_toolset_values example_env 2 0 ubuntu22_toolset [''.'']
          = Inr (map (\<lambda>(q, r1, r2). (q, r2, r1)) [(''.'', [JInt 311], [JInt 312])])"
    by blast
  with h j show ?thesis by simp
qed

subsection \<open>The run\<close>

lemma intersection_set: "set (intersection a b) = set a \<inter> set b"
  by (auto simp: intersection_def)

lemma intersection_empty: "intersection a b \<noteq> [] \<longleftrightarrow> set a \<inter> set b \<noteq> {}"
  by (metis intersection_set set_empty)

lemma escalation_only_start: "escalation_only start"
  by (simp add: escalation_only_def start_def)

lemma sorted_le_last: "sorted xs \<Longrightarrow> (x::nat) \<in> set xs \<Longrightarrow> x \<le> last xs"
  by (induction xs) auto

lemma escalation_only_escalate:
  assumes "escalation_only s"
  shows "escalation_only (escalate n s)"
proof -
  from assms have "\<forall>x\<in>set (assigned s). x \<le> max (recommendation s) n"
    using sorted_le_last [of "assigned s"] by (fastforce simp: escalation_only_def)
  with assms show ?thesis
    by (simp add: escalation_only_def escalate_def sorted_append)
qed

lemma escalation_only_print: "escalation_only s \<Longrightarrow> escalation_only (print ms s)"
  by (simp add: escalation_only_def print_def)

lemma escalation_only_script_check: "escalation_only s \<Longrightarrow> escalation_only (script_check l s)"
  by (simp add: script_check_def Let_def escalation_only_print escalation_only_escalate)

lemma escalation_only_template_check:
  "escalation_only s \<Longrightarrow> escalation_only (template_check l s)"
  by (simp add: template_check_def Let_def escalation_only_print escalation_only_escalate)

lemma escalation_only_toolset_loop:
  "escalation_only s \<Longrightarrow> escalation_only (fst (toolset_loop e b u qs ts s))"
proof (induction ts arbitrary: s)
  case Nil
  then show ?case by simp
next
  case (Cons t ts)
  show ?case
  proof (cases "compare_toolset_values e b u t qs")
    case (Inl err)
    with Cons.prems show ?thesis by simp
  next
    case (Inr found)
    with Cons show ?thesis
      by (simp add: escalation_only_print escalation_only_escalate)
  qed
qed

lemma escalation_only_checks: "escalation_only s \<Longrightarrow> escalation_only (fst (checks e l s))"
proof -
  assume s: "escalation_only s"
  let ?s2 = "template_check l (script_check l s)"
  from s have s2: "escalation_only ?s2"
    by (simp add: escalation_only_script_check escalation_only_template_check)
  show ?thesis
  proof (cases "extract_jq_queries e (tag_commit e (bugswarm_tag l)) (scripts_used l)")
    case (Inl err)
    with s2 show ?thesis by (simp add: checks_def)
  next
    case (Inr qs)
    let ?r = "toolset_loop e (merge_base_commit l) (tag_commit e (ubuntu_tag l)) qs
                (sort (intersection [ubuntu20_toolset, ubuntu22_toolset] (changed_files l))) ?s2"
    from s2 have "escalation_only (fst ?r)" by (rule escalation_only_toolset_loop)
    then have "escalation_only (print_results l (fst ?r))"
      by (simp add: print_results_def escalation_only_print)
    with \<open>escalation_only (fst ?r)\<close> Inr show ?thesis
      by (cases ?r) (auto simp: checks_def split: option.splits)
  qed
qed

lemma escalation_only_main: "escalation_only (fst (main e))"
  by (auto simp: main_def escalation_only_start escalation_only_checks split: sum.splits)

lemma recommendation_script_check:
  "recommendation (script_check l s)
     = max (recommendation s) (if script_finding l then 1 else 0)"
  by (simp add: script_check_def Let_def intersection_empty script_finding_def print_def
      escalate_def)

lemma recommendation_template_check:
  "recommendation (template_check l s)
     = max (recommendation s) (if template_finding l then 1 else 0)"
  by (simp add: template_check_def Let_def intersection_empty template_finding_def print_def
      escalate_def)

lemma recommendation_toolset_loop:
  assumes "toolset_loop e b u qs ts s = (s', None)"
  shows "recommendation s'
           = max (recommendation s)
               (if \<exists>t\<in>set ts. \<exists>found. compare_toolset_values e b u t qs = Inr found \<and> found \<noteq> []
                then 2 else 0)"
  using assms
proof (induction ts arbitrary: s)
  case Nil
  then show ?case by simp
next
  case (Cons t ts)
  from Cons.prems obtain found where f: "compare_toolset_values e b u t qs = Inr found"
    by (cases "compare_toolset_values e b u t qs") auto
  let ?s = "if found \<noteq> []
            then print (ValuesChanged t
                         # concat (map (\<lambda>(query, original, updated).
                                     [Item query, OldValue original, NewValue updated])
                                   found))
                    (escalate 2 s)
            else s"
  from Cons.prems f have "toolset_loop e b u qs ts ?s = (s', None)" by simp
  from Cons.IH [OF this] have
    "recommendation s' = max (recommendation ?s)
       (if \<exists>t\<in>set ts. \<exists>found. compare_toolset_values e b u t qs = Inr found \<and> found \<noteq> []
        then 2 else 0)" .
  moreover have "recommendation ?s = max (recommendation s) (if found \<noteq> [] then 2 else 0)"
    by (simp add: print_def escalate_def)
  ultimately show ?case using f by auto
qed

lemma recommendation_checks:
  assumes "checks e l s = (s', None)"
    and "extract_jq_queries e (tag_commit e (bugswarm_tag l)) (scripts_used l) = Inr queries"
  shows "recommendation s'
           = max (recommendation s)
               (max (if script_finding l then 1 else 0)
                 (max (if template_finding l then 1 else 0)
                   (if toolset_finding e l queries then 2 else 0)))"
proof -
  let ?s2 = "template_check l (script_check l s)"
  let ?ts = "sort (intersection [ubuntu20_toolset, ubuntu22_toolset] (changed_files l))"
  let ?r = "toolset_loop e (merge_base_commit l) (tag_commit e (ubuntu_tag l)) queries ?ts ?s2"
  obtain s3 r where r: "?r = (s3, r)" by (cases ?r)
  with assms have none: "r = None" and s': "s' = print_results l s3"
    by (auto simp: checks_def split: option.splits)
  have ts: "set ?ts = {ubuntu20_toolset, ubuntu22_toolset} \<inter> set (changed_files l)"
    by (simp add: intersection_set)
  from r none have "?r = (s3, None)" by simp
  from recommendation_toolset_loop [OF this] have
    "recommendation s3 = max (recommendation ?s2)
       (if toolset_finding e l queries then 2 else 0)"
    unfolding ts toolset_finding_def .
  moreover have "recommendation s' = recommendation s3"
    by (simp add: s' print_results_def print_def)
  ultimately show ?thesis
    by (simp add: recommendation_script_check recommendation_template_check max.assoc)
qed

text \<open>
  C2. The values assigned to the recommendation during a run start at 0 and never
  decrease, and the last of them is the value at the end. When the run completes, that
  value is the maximum of what the three checks trigger: 1 for a changed script, 1 for a
  changed template, 2 for a changed toolset value, and 0 when none of them triggers.
\<close>

theorem main_recommendation:
  "hd (assigned (fst (main e))) = 0
   \<and> sorted (assigned (fst (main e)))
   \<and> last (assigned (fst (main e))) = recommendation (fst (main e))
   \<and> (\<forall>e' l queries.
        fetch_upstream_changes e = Inr e' \<and> prepare e' = Inr l
        \<and> extract_jq_queries e' (tag_commit e' (bugswarm_tag l)) (scripts_used l) = Inr queries
        \<and> snd (main e) = None
        \<longrightarrow> recommendation (fst (main e))
              = max (if script_finding l then 1 else 0)
                  (max (if template_finding l then 1 else 0)
                    (if toolset_finding e' l queries then 2 else 0)))"
proof -
  have "escalation_only (fst (main e))" by (rule escalation_only_main)
  then have a: "hd (assigned (fst (main e))) = 0" "sorted (assigned (fst (main e)))"
    "last (assigned (fst (main e))) = recommendation (fst (main e))"
    by (simp_all add: escalation_only_def)
  have b: "recommendation (fst (main e))
              = max (if script_finding l then 1 else 0)
                  (max (if template_finding l then 1 else 0)
                    (if toolset_finding e' l queries then 2 else 0))"
    if h: "fetch_upstream_changes e = Inr e'" "prepare e' = Inr l"
      "extract_jq_queries e' (tag_commit e' (bugswarm_tag l)) (scripts_used l) = Inr queries"
      "snd (main e) = None"
    for e' l queries
  proof -
    from h(1,2) have m: "main e = checks e' l start" by (simp add: main_def)
    with h(4) have "checks e' l start = (fst (main e), None)"
      by (metis prod.collapse)
    from recommendation_checks [OF this h(3)] show ?thesis by (simp add: start_def)
  qed
  from a b show ?thesis by blast
qed

lemma example_prepare:
  "prepare example_env =
     Inr \<lparr>ubuntu_tag = ''ubuntu22/20240201.1'', bugswarm_tag = ''bugswarm/20240101'',
          merge_base_commit = 0,
          changed_files = [''images/ubuntu/toolsets/toolset-2204.json'',
                           ''images/ubuntu/scripts/helpers/install.sh'', ''README.md''],
          scripts_used = [''images/ubuntu/scripts/build/install-python.sh'',
                          ''images/ubuntu/scripts/build/install-git.sh'',
                          ''images/ubuntu/scripts/build/cleanup.sh'',
                          ''images/ubuntu/scripts/helpers/install.sh'']\<rparr>"
  by code_simp

lemma example_queries:
  "extract_jq_queries example_env 1
     [''images/ubuntu/scripts/build/install-python.sh'',
      ''images/ubuntu/scripts/build/install-git.sh'',
      ''images/ubuntu/scripts/build/cleanup.sh'',
      ''images/ubuntu/scripts/helpers/install.sh''] = Inr [''.'']"
  by code_simp

lemma example_compare:
  "compare_toolset_values example_env 0 2 ''images/ubuntu/toolsets/toolset-2204.json'' [''.'']
     = Inr [(''.'', [JInt 311], [JInt 312])]"
  by (simp add: compare_toolset_values_def load_toolset_def file_at_commit_def
      example_env_def results_differ_def py_eq_def)

theorem main_recommendation_witness:
  "fetch_upstream_changes example_env = Inr example_env
   \<and> snd (main example_env) = None
   \<and> assigned (fst (main example_env)) = [0, 1, 2]
   \<and> recommendation (fst (main example_env)) = 2"
proof -
  let ?l = "\<lparr>ubuntu_tag = ''ubuntu22/20240201.1'', bugswarm_tag = ''bugswarm/20240101'',
          merge_base_commit = 0,
          changed_files = [''images/ubuntu/toolsets/toolset-2204.json'',
                           ''images/ubuntu/scripts/helpers/install.sh'', ''README.md''],
          scripts_used = [''images/ubuntu/scripts/build/install-python.sh'',
                          ''images/ubuntu/scripts/build/install-git.sh'',
                          ''images/ubuntu/scripts/build/cleanup.sh'',
                          ''images/ubuntu/scripts/helpers/install.sh'']\<rparr>"
  have f: "fetch_upstream_changes example_env = Inr example_env"
    by (simp add: fetch_upstream_changes_def example_env_def)
  have tc: "tag_commit example_env ''bugswarm/20240101'' = 1"
    "tag_commit example_env ''ubuntu22/20240201.1'' = 2"
    by (simp_all add: example_env_def)
  have q: "extract_jq_queries example_env (tag_commit example_env (bugswarm_tag ?l))
             (scripts_used ?l) = Inr [''.'']"
    using example_queries by (simp add: tc)
  have n: "snd (main example_env) = None" by code_simp
  have a: "assigned (fst (main example_env)) = [0, 1, 2]" by code_simp
  have sf: "script_finding ?l" by (simp add: script_finding_def)
  have tf: "\<not> template_finding ?l"
    by (simp add: template_finding_def ubuntu22_hcl_def ubuntu20_hcl_def)
  have "ubuntu22_toolset \<in> {ubuntu20_toolset, ubuntu22_toolset} \<inter> set (changed_files ?l)"
    by (simp add: ubuntu22_toolset_def)
  moreover have "compare_toolset_values example_env (merge_base_commit ?l)
       (tag_commit example_env (ubuntu_tag ?l)) ubuntu22_toolset [''.'']
     = Inr [(''.'', [JInt 311], [JInt 312])]"
    using example_compare by (simp add: tc ubuntu22_toolset_def)
  ultimately have cf: "toolset_finding example_env ?l [''.'']"
    unfolding toolset_finding_def by blast
  from main_recommendation [of example_env] f example_prepare q n
  have "recommendation (fst (main example_env))
          = max (if script_finding ?l then 1 else 0)
              (max (if template_finding ?l then 1 else 0)
                (if toolset_finding example_env ?l [''.''] then 2 else 0))"
    by blast
  with sf tf cf have "recommendation (fst (main example_env)) = 2" by simp
  with f n a show ?thesis by simp
qed

lemma printed_toolset_loop:
  "\<exists>more. printed (fst (toolset_loop e b u qs ts s)) = printed s @ more
          \<and> ResultsHeader \<notin> set more"
proof (induction ts arbitrary: s)
  case Nil
  show ?case by simp
next
  case (Cons t ts)
  show ?case
  proof (cases "compare_toolset_values e b u t qs")
    case (Inl err)
    then show ?thesis by simp
  next
    case (Inr found)
    let ?ms = "ValuesChanged t
                 # concat (map (\<lambda>(query, original, updated).
                              [Item query, OldValue original, NewValue updated]) found)"
    let ?s = "if found \<noteq> [] then print ?ms (escalate 2 s) else s"
    have "ResultsHeader \<notin> set ?ms" by auto
    then obtain m1 where m1: "printed ?s = printed s @ m1" "ResultsHeader \<notin> set m1"
      by (cases "found \<noteq> []") (auto simp: print_def escalate_def)
    from Cons.IH [of ?s] obtain m2 where
      m2: "printed (fst (toolset_loop e b u qs ts ?s)) = printed ?s @ m2"
      "ResultsHeader \<notin> set m2" by blast
    from Inr have "toolset_loop e b u qs (t # ts) s = toolset_loop e b u qs ts ?s" by simp
    with m1 m2 have "printed (fst (toolset_loop e b u qs (t # ts) s)) = printed s @ (m1 @ m2)
      \<and> ResultsHeader \<notin> set (m1 @ m2)" by simp
    then show ?thesis by blast
  qed
qed

lemma toolset_loop_fails:
  assumes "t \<in> set ts" "compare_toolset_values e b u t qs = Inl err"
  shows "\<exists>err'. snd (toolset_loop e b u qs ts s) = Some err'"
  using assms(1)
proof (induction ts arbitrary: s)
  case Nil
  then show ?case by simp
next
  case (Cons x ts)
  show ?case
  proof (cases "compare_toolset_values e b u x qs")
    case (Inl err')
    then show ?thesis by simp
  next
    case (Inr found)
    with assms(2) have "x \<noteq> t" by auto
    with Cons.prems have "t \<in> set ts" by simp
    with Cons.IH Inr show ?thesis by simp
  qed
qed

lemma recommendation_toolset_loop_mono:
  "recommendation s \<le> recommendation (fst (toolset_loop e b u qs ts s))"
proof (induction ts arbitrary: s)
  case Nil
  show ?case by simp
next
  case (Cons t ts)
  show ?case
  proof (cases "compare_toolset_values e b u t qs")
    case (Inl err)
    then show ?thesis by simp
  next
    case (Inr found)
    let ?s = "if found \<noteq> []
              then print (ValuesChanged t
                           # concat (map (\<lambda>(query, original, updated).
                                       [Item query, OldValue original, NewValue updated])
                                     found))
                     (escalate 2 s)
              else s"
    have "recommendation s \<le> recommendation ?s" by (simp add: print_def escalate_def)
    also have "\<dots> \<le> recommendation (fst (toolset_loop e b u qs ts ?s))" by (rule Cons.IH)
    finally show ?thesis using Inr by simp
  qed
qed

lemma printed_script_check:
  "printed (script_check l s)
     = printed s @ (if script_finding l
                    then [ScriptsChanged]
                         @ map Item (sort (intersection (scripts_used l) (changed_files l)))
                         @ [CheckDiffs]
                    else [])"
  by (simp add: script_check_def Let_def intersection_empty script_finding_def print_def
      escalate_def)

lemma printed_template_check:
  "printed (template_check l s)
     = printed s @ (if template_finding l
                    then [TemplatesChanged]
                         @ map Item (sort (intersection [ubuntu22_hcl, ubuntu20_hcl] (changed_files l)))
                         @ [CheckDiffs]
                    else [])"
  by (simp add: template_check_def Let_def intersection_empty template_finding_def print_def
      escalate_def)

lemma compare_toolset_values_load_fails:
  assumes "load_toolset e c1 p = Inl err1 \<or> load_toolset e c2 p = Inl err2"
  shows "\<exists>err. compare_toolset_values e c1 c2 p qs = Inl err"
  using assms by (auto simp: compare_toolset_values_def split: sum.splits)

subsection \<open>A toolset file that does not parse\<close>

lemma load_toolset_JSONDecodeError:
  "load_toolset e c p = Inl JSONDecodeError
     \<longleftrightarrow> (\<exists>text. blob_text e c p = Some text \<and> json_loads e text = None)"
  by (auto simp: load_toolset_def file_at_commit_def split: option.splits)

lemma compare_toolset_values_JSONDecodeError:
  assumes "load_toolset e c1 p = Inl JSONDecodeError
           \<or> (\<exists>old. load_toolset e c1 p = Inr old \<and> load_toolset e c2 p = Inl JSONDecodeError)"
  shows "compare_toolset_values e c1 c2 p qs = Inl JSONDecodeError"
  using assms by (auto simp: compare_toolset_values_def)

lemma toolset_loop_passes:
  assumes "\<forall>t\<in>set before. \<exists>found. compare_toolset_values e b u t qs = Inr found"
  shows "snd (toolset_loop e b u qs before s) = None
         \<and> toolset_loop e b u qs (before @ rest) s
             = toolset_loop e b u qs rest (fst (toolset_loop e b u qs before s))"
  using assms
proof (induction before arbitrary: s)
  case Nil
  show ?case by simp
next
  case (Cons t before)
  from Cons.prems obtain found where f: "compare_toolset_values e b u t qs = Inr found"
    by auto
  from Cons.prems have
    "\<forall>t\<in>set before. \<exists>found. compare_toolset_values e b u t qs = Inr found" by simp
  from Cons.IH [OF this] f show ?case by simp
qed

lemma values_changed_toolset_loop:
  assumes "ValuesChanged t \<in> set (printed (fst (toolset_loop e b u qs ts s)))"
  shows "t \<in> set ts \<or> ValuesChanged t \<in> set (printed s)"
  using assms
proof (induction ts arbitrary: s)
  case Nil
  then show ?case by simp
next
  case (Cons x ts)
  show ?case
  proof (cases "compare_toolset_values e b u x qs")
    case (Inl err)
    with Cons.prems show ?thesis by simp
  next
    case (Inr found)
    let ?ms = "ValuesChanged x
                 # concat (map (\<lambda>(query, original, updated).
                              [Item query, OldValue original, NewValue updated]) found)"
    let ?s = "if found \<noteq> [] then print ?ms (escalate 2 s) else s"
    from Inr Cons.prems have
      "ValuesChanged t \<in> set (printed (fst (toolset_loop e b u qs ts ?s)))" by simp
    from Cons.IH [OF this] have "t \<in> set ts \<or> ValuesChanged t \<in> set (printed ?s)" .
    moreover have "ValuesChanged t \<in> set (printed ?s)
                   \<Longrightarrow> t = x \<or> ValuesChanged t \<in> set (printed s)"
      by (cases "found \<noteq> []") (auto simp: print_def escalate_def)
    ultimately show ?thesis by auto
  qed
qed

text \<open>
  C3, as the code has it. Take a run that reaches the comparison of a changed toolset
  file: the queries were extracted, and the changed toolset files before it in sorted
  order were compared without an exception. If that file fails to parse as JSON, at the
  merge base or, the merge base having parsed, at the upstream commit, then the run ends
  at that file with \<^verbatim>\<open>JSONDecodeError\<close>: the state at the end is the one reached after
  the files before it, so neither this file nor a later one is compared or reported,
  and the results block is not printed. What the script check and the template check
  printed stays at the start of the output: their headers and every changed script and
  changed template are there, and the recommendation they reached is kept.
\<close>

theorem main_toolset_parse_failure:
  assumes "fetch_upstream_changes e = Inr e'" and "prepare e' = Inr l"
    and "extract_jq_queries e' (tag_commit e' (bugswarm_tag l)) (scripts_used l) = Inr queries"
    and "sort (intersection [ubuntu20_toolset, ubuntu22_toolset] (changed_files l))
           = before @ toolset_json # later"
    and "\<forall>t\<in>set before. \<exists>found.
           compare_toolset_values e' (merge_base_commit l) (tag_commit e' (ubuntu_tag l))
             t queries = Inr found"
    and "load_toolset e' (merge_base_commit l) toolset_json = Inl JSONDecodeError
         \<or> (\<exists>old. load_toolset e' (merge_base_commit l) toolset_json = Inr old
                \<and> load_toolset e' (tag_commit e' (ubuntu_tag l)) toolset_json
                    = Inl JSONDecodeError)"
  shows "main e
           = (fst (toolset_loop e' (merge_base_commit l) (tag_commit e' (ubuntu_tag l))
                     queries before (template_check l (script_check l start))),
              Some JSONDecodeError)
         \<and> (\<forall>t\<in>set (toolset_json # later). ValuesChanged t \<notin> set (printed (fst (main e))))
         \<and> ResultsHeader \<notin> set (printed (fst (main e)))
         \<and> prefix (printed (template_check l (script_check l start))) (printed (fst (main e)))
         \<and> (script_finding l \<longrightarrow>
               ScriptsChanged \<in> set (printed (fst (main e)))
               \<and> (\<forall>p\<in>set (scripts_used l) \<inter> set (changed_files l).
                     Item p \<in> set (printed (fst (main e))))
               \<and> 1 \<le> recommendation (fst (main e)))
         \<and> (template_finding l \<longrightarrow>
               TemplatesChanged \<in> set (printed (fst (main e)))
               \<and> (\<forall>p\<in>{ubuntu22_hcl, ubuntu20_hcl} \<inter> set (changed_files l).
                     Item p \<in> set (printed (fst (main e))))
               \<and> 1 \<le> recommendation (fst (main e)))"
proof -
  let ?b = "merge_base_commit l"
  let ?u = "tag_commit e' (ubuntu_tag l)"
  let ?s2 = "template_check l (script_check l start)"
  let ?ts = "sort (intersection [ubuntu20_toolset, ubuntu22_toolset] (changed_files l))"
  let ?sb = "fst (toolset_loop e' ?b ?u queries before ?s2)"
  from assms(1,2) have m: "main e = checks e' l start" by (simp add: main_def)
  have fail: "compare_toolset_values e' ?b ?u toolset_json queries = Inl JSONDecodeError"
    using assms(6) by (rule compare_toolset_values_JSONDecodeError)
  from toolset_loop_passes [OF assms(5), of ?s2 "toolset_json # later"] fail
  have loop: "toolset_loop e' ?b ?u queries (before @ toolset_json # later) ?s2
                = (?sb, Some JSONDecodeError)" by simp
  with assms(3,4) have "checks e' l start = (?sb, Some JSONDecodeError)"
    by (simp add: checks_def)
  with m have res: "main e = (?sb, Some JSONDecodeError)" by simp
  then have st: "fst (main e) = ?sb" by simp
  from printed_toolset_loop obtain more where
    more: "printed ?sb = printed ?s2 @ more" "ResultsHeader \<notin> set more" by blast
  have p2: "printed ?s2
      = [FetchingUpstream]
        @ (if script_finding l
           then [ScriptsChanged]
                @ map Item (sort (intersection (scripts_used l) (changed_files l)))
                @ [CheckDiffs]
           else [])
        @ (if template_finding l
           then [TemplatesChanged]
                @ map Item (sort (intersection [ubuntu22_hcl, ubuntu20_hcl] (changed_files l)))
                @ [CheckDiffs]
           else [])"
    by (simp add: printed_template_check printed_script_check start_def)
  have no_header: "ResultsHeader \<notin> set (printed ?s2)"
    unfolding p2 by auto
  have no_values: "ValuesChanged t \<notin> set (printed ?s2)" for t
    unfolding p2 by auto
  have "distinct ?ts" by (simp add: intersection_def)
  with assms(4) have d: "distinct (before @ toolset_json # later)" by simp
  have later: "\<forall>t\<in>set (toolset_json # later). ValuesChanged t \<notin> set (printed (fst (main e)))"
  proof
    fix t assume t: "t \<in> set (toolset_json # later)"
    show "ValuesChanged t \<notin> set (printed (fst (main e)))"
    proof
      assume "ValuesChanged t \<in> set (printed (fst (main e)))"
      then have "ValuesChanged t \<in> set (printed ?sb)" by (simp add: st)
      from values_changed_toolset_loop [OF this] no_values have "t \<in> set before" by blast
      with t d show False by auto
    qed
  qed
  have pre: "prefix (printed ?s2) (printed (fst (main e)))"
    by (simp add: st more)
  have rec2: "recommendation ?s2
      = max (if script_finding l then 1 else 0) (if template_finding l then 1 else 0)"
    by (simp add: recommendation_template_check recommendation_script_check start_def)
  have mono: "recommendation ?s2 \<le> recommendation (fst (main e))"
    unfolding st by (rule recommendation_toolset_loop_mono)
  have sub: "set (printed ?s2) \<subseteq> set (printed (fst (main e)))"
    by (simp add: st more)
  have s: "ScriptsChanged \<in> set (printed (fst (main e)))
           \<and> (\<forall>p\<in>set (scripts_used l) \<inter> set (changed_files l).
                 Item p \<in> set (printed (fst (main e))))
           \<and> 1 \<le> recommendation (fst (main e))" if f: "script_finding l"
  proof -
    from f have "ScriptsChanged \<in> set (printed ?s2)"
      "\<forall>p\<in>set (scripts_used l) \<inter> set (changed_files l). Item p \<in> set (printed ?s2)"
      unfolding p2 by (auto simp: intersection_set)
    moreover from f rec2 mono have "1 \<le> recommendation (fst (main e))" by simp
    ultimately show ?thesis using sub by blast
  qed
  have t: "TemplatesChanged \<in> set (printed (fst (main e)))
           \<and> (\<forall>p\<in>{ubuntu22_hcl, ubuntu20_hcl} \<inter> set (changed_files l).
                 Item p \<in> set (printed (fst (main e))))
           \<and> 1 \<le> recommendation (fst (main e))" if f: "template_finding l"
  proof -
    from f have "TemplatesChanged \<in> set (printed ?s2)"
      "\<forall>p\<in>{ubuntu22_hcl, ubuntu20_hcl} \<inter> set (changed_files l). Item p \<in> set (printed ?s2)"
      unfolding p2 by (auto simp: intersection_set)
    moreover from f rec2 mono have "1 \<le> recommendation (fst (main e))" by simp
    ultimately show ?thesis using sub by blast
  qed
  have "ResultsHeader \<notin> set (printed (fst (main e)))"
    using no_header more by (simp add: st)
  with res later pre s t show ?thesis by blast
qed

lemma example_bad_toolset_prepare:
  "prepare example_env_bad_toolset =
     Inr \<lparr>ubuntu_tag = ''ubuntu22/20240201.1'', bugswarm_tag = ''bugswarm/20240101'',
          merge_base_commit = 0,
          changed_files = [''images/ubuntu/toolsets/toolset-2204.json'',
                           ''images/ubuntu/toolsets/toolset-2004.json'',
                           ''images/ubuntu/scripts/helpers/install.sh''],
          scripts_used = [''images/ubuntu/scripts/build/install-python.sh'',
                          ''images/ubuntu/scripts/build/install-git.sh'',
                          ''images/ubuntu/scripts/build/cleanup.sh'',
                          ''images/ubuntu/scripts/helpers/install.sh'']\<rparr>"
  by code_simp

lemma example_bad_toolset_queries:
  "extract_jq_queries example_env_bad_toolset 1
     [''images/ubuntu/scripts/build/install-python.sh'',
      ''images/ubuntu/scripts/build/install-git.sh'',
      ''images/ubuntu/scripts/build/cleanup.sh'',
      ''images/ubuntu/scripts/helpers/install.sh''] = Inr [''.'']"
  by code_simp

theorem main_toolset_parse_failure_witness:
  "fetch_upstream_changes example_env_bad_toolset = Inr example_env_bad_toolset
   \<and> sort (intersection [ubuntu20_toolset, ubuntu22_toolset]
             [''images/ubuntu/toolsets/toolset-2204.json'',
              ''images/ubuntu/toolsets/toolset-2004.json'',
              ''images/ubuntu/scripts/helpers/install.sh''])
       = [] @ ubuntu20_toolset # [ubuntu22_toolset]
   \<and> load_toolset example_env_bad_toolset 0 ubuntu20_toolset = Inl JSONDecodeError
   \<and> snd (main example_env_bad_toolset) = Some JSONDecodeError
   \<and> ValuesChanged ubuntu22_toolset \<notin> set (printed (fst (main example_env_bad_toolset)))
   \<and> ScriptsChanged \<in> set (printed (fst (main example_env_bad_toolset)))
   \<and> Item ''images/ubuntu/scripts/helpers/install.sh''
       \<in> set (printed (fst (main example_env_bad_toolset)))
   \<and> ResultsHeader \<notin> set (printed (fst (main example_env_bad_toolset)))
   \<and> 1 \<le> recommendation (fst (main example_env_bad_toolset))"
proof -
  let ?e = example_env_bad_toolset
  let ?l = "\<lparr>ubuntu_tag = ''ubuntu22/20240201.1'', bugswarm_tag = ''bugswarm/20240101'',
          merge_base_commit = 0,
          changed_files = [''images/ubuntu/toolsets/toolset-2204.json'',
                           ''images/ubuntu/toolsets/toolset-2004.json'',
                           ''images/ubuntu/scripts/helpers/install.sh''],
          scripts_used = [''images/ubuntu/scripts/build/install-python.sh'',
                          ''images/ubuntu/scripts/build/install-git.sh'',
                          ''images/ubuntu/scripts/build/cleanup.sh'',
                          ''images/ubuntu/scripts/helpers/install.sh'']\<rparr>"
  have f: "fetch_upstream_changes ?e = Inr ?e"
    by (simp add: fetch_upstream_changes_def example_env_bad_toolset_def example_env_def)
  have tc: "tag_commit ?e ''bugswarm/20240101'' = 1" "tag_commit ?e ''ubuntu22/20240201.1'' = 2"
    by (simp_all add: example_env_bad_toolset_def example_env_def)
  have q: "extract_jq_queries ?e (tag_commit ?e (bugswarm_tag ?l)) (scripts_used ?l) = Inr [''.'']"
    using example_bad_toolset_queries by (simp add: tc)
  have ts: "sort (intersection [ubuntu20_toolset, ubuntu22_toolset]
             [''images/ubuntu/toolsets/toolset-2204.json'',
              ''images/ubuntu/toolsets/toolset-2004.json'',
              ''images/ubuntu/scripts/helpers/install.sh''])
       = [] @ ubuntu20_toolset # [ubuntu22_toolset]"
    by code_simp
  then have ts': "sort (intersection [ubuntu20_toolset, ubuntu22_toolset] (changed_files ?l))
       = [] @ ubuntu20_toolset # [ubuntu22_toolset]" by simp
  have ok: "\<forall>t\<in>set []. \<exists>found.
           compare_toolset_values ?e (merge_base_commit ?l) (tag_commit ?e (ubuntu_tag ?l))
             t [''.''] = Inr found" by simp
  have ld: "load_toolset ?e 0 ubuntu20_toolset = Inl JSONDecodeError"
    by (simp add: load_toolset_def file_at_commit_def example_env_bad_toolset_def
        example_env_def ubuntu20_toolset_def)
  then have ld': "load_toolset ?e (merge_base_commit ?l) ubuntu20_toolset = Inl JSONDecodeError
         \<or> (\<exists>old. load_toolset ?e (merge_base_commit ?l) ubuntu20_toolset = Inr old
                \<and> load_toolset ?e (tag_commit ?e (ubuntu_tag ?l)) ubuntu20_toolset
                    = Inl JSONDecodeError)"
    by simp
  have sf: "script_finding ?l" by (simp add: script_finding_def)
  note r = main_toolset_parse_failure [OF f example_bad_toolset_prepare q ts' ok ld']
  note r1 = r [THEN conjunct1]
  note r2 = r [THEN conjunct2, THEN conjunct1]
  note r3 = r [THEN conjunct2, THEN conjunct2, THEN conjunct1]
  note r5 = r [THEN conjunct2, THEN conjunct2, THEN conjunct2, THEN conjunct2, THEN conjunct1]
  from r1 have a: "snd (main ?e) = Some JSONDecodeError" by (metis snd_conv)
  from r2 have b: "ValuesChanged ubuntu22_toolset \<notin> set (printed (fst (main ?e)))"
    by (metis list.set_intros(1,2))
  from r5 sf have c: "ScriptsChanged \<in> set (printed (fst (main ?e)))"
    "\<forall>p\<in>set (scripts_used ?l) \<inter> set (changed_files ?l). Item p \<in> set (printed (fst (main ?e)))"
    "1 \<le> recommendation (fst (main ?e))"
    by blast+
  from c(2) have d: "Item ''images/ubuntu/scripts/helpers/install.sh''
       \<in> set (printed (fst (main ?e)))" by simp
  from f ts ld a b c(1) d r3 c(3) show ?thesis by blast
qed

text \<open>
  C3 as stated fails: the exception ends the whole run, not the check of one file. With
  both toolset files changed and the 20.04 one not parsing, the run stops at that file
  after the scripts section: the 22.04 file, whose comparison finds a changed value, is
  never compared, and no results block is printed.
\<close>

theorem main_toolset_parse_failure_aborts_run:
  "main example_env_bad_toolset
     = (\<lparr>printed = [FetchingUpstream, ScriptsChanged,
                     Item ''images/ubuntu/scripts/helpers/install.sh'', CheckDiffs],
         recommendation = 1, assigned = [0, 1]\<rparr>,
        Some JSONDecodeError)
   \<and> load_toolset example_env_bad_toolset 0 ubuntu20_toolset = Inl JSONDecodeError
   \<and> compare_toolset_values example_env_bad_toolset 0 2 ubuntu22_toolset [''.'']
     = Inr [(''.'', [JInt 311], [JInt 312])]"
proof -
  have a: "main example_env_bad_toolset
     = (\<lparr>printed = [FetchingUpstream, ScriptsChanged,
                     Item ''images/ubuntu/scripts/helpers/install.sh'', CheckDiffs],
         recommendation = 1, assigned = [0, 1]\<rparr>,
        Some JSONDecodeError)"
    by code_simp
  have b: "load_toolset example_env_bad_toolset 0 ubuntu20_toolset = Inl JSONDecodeError"
    by (simp add: load_toolset_def file_at_commit_def example_env_bad_toolset_def
        example_env_def ubuntu20_toolset_def)
  have c: "compare_toolset_values example_env_bad_toolset 0 2 ubuntu22_toolset [''.'']
     = Inr [(''.'', [JInt 311], [JInt 312])]"
    by (simp add: compare_toolset_values_def load_toolset_def file_at_commit_def
        example_env_bad_toolset_def example_env_def ubuntu22_toolset_def results_differ_def
        py_eq_def)
  from a b c show ?thesis by simp
qed

end
